theory Spec2Isabelle
  imports Main "HOL-Library.Word" "HOL-Library.Multiset"
begin

unbundle bit_operations_syntax

section \<open>JavaScript values used by the server\<close>

text \<open>
  Strings are \<^typ>\<open>string\<close>; a character is read as the code unit \<open>charCodeAt\<close>
  returns (code points below 256). An optional field (\<open>string | undefined\<close>) is a
  \<^typ>\<open>string option\<close>. Points in time (\<open>Date\<close>, \<open>Date.now()\<close>) are milliseconds
  since the epoch, an \<^typ>\<open>int\<close>; every \<open>new Date()\<close> and \<open>Date.now()\<close> of the source
  is a parameter \<open>now\<close> of the model.
\<close>

text \<open>Truthiness of \<open>string | undefined | null\<close>: the empty string is falsy too.\<close>

definition truthy :: "string option \<Rightarrow> bool" where
  "truthy v = (case v of None \<Rightarrow> False | Some s \<Rightarrow> s \<noteq> [])"

text \<open>\<open>v || d\<close> for an optional string \<open>v\<close> and a literal \<open>d\<close>.\<close>

definition orElse :: "string option \<Rightarrow> string \<Rightarrow> string" where
  "orElse v d = (case v of None \<Rightarrow> d | Some s \<Rightarrow> if s = [] then d else s)"

definition digitTable :: string where
  "digitTable = ''0123456789abcdefghijklmnopqrstuvwxyz''"

text \<open>\<open>Number.prototype.toString(10)\<close> and \<open>toString(36)\<close> on a non-negative integer.\<close>

fun toString10 :: "nat \<Rightarrow> string" where
  "toString10 n =
     (if n < 10 then [digitTable ! n] else toString10 (n div 10) @ [digitTable ! (n mod 10)])"

fun toString36 :: "nat \<Rightarrow> string" where
  "toString36 n =
     (if n < 36 then [digitTable ! n] else toString36 (n div 36) @ [digitTable ! (n mod 36)])"

declare toString10.simps [simp del]
declare toString36.simps [simp del]

text \<open>An integer inside a template literal: \<open>`${n}`\<close>.\<close>

definition showInt :: "int \<Rightarrow> string" where
  "showInt i = (if i < 0 then CHR ''-'' # toString10 (nat (- i)) else toString10 (nat i))"

section \<open>Utterances and their queues (unified-server.ts, lines 52-95)\<close>

datatype utterance_status = Pending | Delivered | Responded

record Utterance =
  uid :: string
  utext :: string
  timestamp :: int
  status :: utterance_status

text \<open>
  \<open>class UtteranceQueue\<close> has the single field \<open>utterances: Utterance[]\<close>; a queue is that
  array.
\<close>

type_synonym UtteranceQueue = "Utterance list"

text \<open>
  \<open>text.trim()\<close>: white space and line terminators are stripped from both ends (the ones
  below code point 256: TAB, LF, VT, FF, CR, SP, NBSP).
\<close>

definition isWhiteSpace :: "char \<Rightarrow> bool" where
  "isWhiteSpace c = (of_char c \<in> {9, 10, 11, 12, 13, 32, 160 :: nat})"

definition trim :: "string \<Rightarrow> string" where
  "trim s = rev (dropWhile isWhiteSpace (rev (dropWhile isWhiteSpace s)))"

text \<open>\<open>add(text, timestamp?)\<close>; the identifier \<open>randomUUID()\<close> returns is the parameter \<open>newId\<close>.\<close>

definition add :: "string \<Rightarrow> string \<Rightarrow> int option \<Rightarrow> int \<Rightarrow> UtteranceQueue \<Rightarrow> Utterance \<times> UtteranceQueue" where
  "add newId txt ts now q =
     (let utterance = \<lparr>uid = newId, utext = trim txt,
                        timestamp = (case ts of None \<Rightarrow> now | Some t \<Rightarrow> t),
                        status = Pending\<rparr>
      in (utterance, q @ [utterance]))"

text \<open>
  \<open>markDelivered(id)\<close>: \<open>find\<close> returns the first utterance with that id, whose status is
  then set; nothing happens when there is none.
\<close>

fun markDelivered :: "string \<Rightarrow> UtteranceQueue \<Rightarrow> UtteranceQueue" where
  "markDelivered i [] = []"
| "markDelivered i (u # us) =
     (if uid u = i then u\<lparr>status := Delivered\<rparr> # us else u # markDelivered i us)"

text \<open>
  Modelled from the spec: \<open>InMemoryUtteranceQueue.markDelivered\<close> of utterance-queue.ts,
  the class of the per-session queues, which is not among the sources. Section 4.1:
  "finds utterance by id; if found and any status, sets status to delivered (idempotent);
  no-op if id absent". The server reads the \<open>utterances\<close> array of such a queue directly,
  so a per-session queue is an \<^typ>\<open>UtteranceQueue\<close> as well.
\<close>

fun inMemoryMarkDelivered :: "string \<Rightarrow> UtteranceQueue \<Rightarrow> UtteranceQueue" where
  "inMemoryMarkDelivered i [] = []"
| "inMemoryMarkDelivered i (u # us) =
     (if uid u = i then u\<lparr>status := Delivered\<rparr> # us else u # inMemoryMarkDelivered i us)"

section \<open>The session registry (session-manager.ts)\<close>

record SessionMetadata =
  workingDirectory :: "string option"
  userAgent :: "string option"
  clientVersion :: "string option"

record SessionInfo =
  sid :: string
  projectPath :: "string option"
  projectName :: "string option"
  lastActivity :: int
  isActive :: bool
  utteranceQueue :: UtteranceQueue
  metadata :: SessionMetadata

record SessionData =
  sd_sessionId :: "string option"
  sd_projectPath :: "string option"
  sd_workingDirectory :: "string option"
  sd_userAgent :: "string option"
  sd_clientVersion :: "string option"
  sd_transcriptPath :: "string option"

text \<open>
  \<open>sessions\<close> is a \<open>Map<string, SessionInfo>\<close> whose only \<open>set\<close> (line 83) stores a session
  under its own \<open>id\<close>: the model keeps the values in insertion order and looks a key up in
  their \<open>sid\<close> fields. \<open>activeSessionId\<close> is \<open>string | null\<close>.
\<close>

record SessionManager =
  sessions :: "SessionInfo list"
  activeSessionId :: "string option"

definition emptyManager :: SessionManager where
  "emptyManager = \<lparr>sessions = [], activeSessionId = None\<rparr>"

definition getSession :: "SessionManager \<Rightarrow> string \<Rightarrow> SessionInfo option" where
  "getSession m k = find (\<lambda>s. sid s = k) (sessions m)"

definition getActiveSession :: "SessionManager \<Rightarrow> SessionInfo option" where
  "getActiveSession m =
     (if \<not> truthy (activeSessionId m) then None
      else case activeSessionId m of None \<Rightarrow> None | Some a \<Rightarrow> getSession m a)"

text \<open>\<open>getAllSessions\<close>: \<open>Array.prototype.sort\<close> is stable, most recent activity first.\<close>

definition getAllSessions :: "SessionManager \<Rightarrow> SessionInfo list" where
  "getAllSessions m = sort_key (\<lambda>s. - lastActivity s) (sessions m)"

subsection \<open>Session identifiers\<close>

text \<open>
  \<open>simpleHash\<close>: \<open>hash << 5\<close> and \<open>hash & hash\<close> work on 32-bit integers, and the sum in
  between stays below \<open>2^53\<close>, so the loop is arithmetic on \<^typ>\<open>32 word\<close> read as signed.
\<close>

definition hashStep :: "32 word \<Rightarrow> char \<Rightarrow> 32 word" where
  "hashStep hash c = (push_bit 5 hash - hash) + of_char c"

definition simpleHash :: "string \<Rightarrow> string" where
  "simpleHash str = ''session_'' @ toString36 (nat \<bar>sint (foldl hashStep 0 str)\<bar>)"

text \<open>
  \<open>transcriptPath.replace(/\/\.claude\/.*$/, '')\<close>: the leftmost \<open>/.claude/\<close> that is
  followed by no line terminator up to the end of the string is cut off with all that
  follows it.
\<close>

definition claudeSuffixHere :: "string \<Rightarrow> bool" where
  "claudeSuffixHere s =
     (take 9 s = ''/.claude/'' \<and> \<not> list_ex (\<lambda>c. of_char c \<in> {10, 13 :: nat}) (drop 9 s))"

fun stripClaudeSuffix :: "string \<Rightarrow> string" where
  "stripClaudeSuffix [] = []"
| "stripClaudeSuffix (c # cs) =
     (if claudeSuffixHere (c # cs) then [] else c # stripClaudeSuffix cs)"

definition extractProjectPath :: "SessionData \<Rightarrow> string option" where
  "extractProjectPath sd =
     (if truthy (sd_projectPath sd) then sd_projectPath sd
      else case sd_transcriptPath sd of
             None \<Rightarrow> sd_workingDirectory sd
           | Some tp \<Rightarrow>
               if tp \<noteq> [] \<and> stripClaudeSuffix tp \<noteq> tp then Some (stripClaudeSuffix tp)
               else sd_workingDirectory sd)"

fun splitOn :: "char \<Rightarrow> string \<Rightarrow> string list" where
  "splitOn sep [] = [[]]"
| "splitOn sep (c # cs) =
     (if c = sep then [] # splitOn sep cs
      else case splitOn sep cs of [] \<Rightarrow> [[c]] | p # ps \<Rightarrow> (c # p) # ps)"

definition extractProjectName :: "string option \<Rightarrow> string option" where
  "extractProjectName pp =
     (case pp of
        None \<Rightarrow> None
      | Some p \<Rightarrow>
          (if p = [] then None
           else (case rev (filter (\<lambda>part. part \<noteq> [])
                        (splitOn CHR ''/'' (map (\<lambda>c. if c = CHR 0x5C then CHR ''/'' else c) p))) of
                   [] \<Rightarrow> None
                 | lastPart # _ \<Rightarrow> Some lastPart)))"

text \<open>
  \<open>generateSessionId\<close>: an explicit id wins; without a project path and a working
  directory the key is seeded with \<open>Date.now()\<close>; otherwise it is built from the path,
  the directory and the user agent.
\<close>

definition sessionKey :: "SessionData \<Rightarrow> int \<Rightarrow> string" where
  "sessionKey sd now =
     (if \<not> truthy (extractProjectPath sd) \<and> \<not> truthy (sd_workingDirectory sd)
      then ''session_'' @ showInt now @ '':'' @ orElse (sd_userAgent sd) ''unknown''
      else orElse (extractProjectPath sd) ''no-path'' @ '':'' @
           orElse (sd_workingDirectory sd) ''no-workdir'' @ '':'' @
           orElse (sd_userAgent sd) ''no-useragent'')"

definition generateSessionId :: "SessionData \<Rightarrow> int \<Rightarrow> string" where
  "generateSessionId sd now = orElse (sd_sessionId sd) (simpleHash (sessionKey sd now))"

subsection \<open>Registry operations\<close>

text \<open>Lines 92-103: what \<open>registerSession\<close> does to a session it finds.\<close>

definition refreshSession :: "SessionData \<Rightarrow> int \<Rightarrow> SessionInfo \<Rightarrow> SessionInfo" where
  "refreshSession sd now s =
     s\<lparr>lastActivity := now,
       isActive := True,
       projectPath := (if truthy (extractProjectPath sd) then extractProjectPath sd
                       else projectPath s),
       projectName := (if truthy (extractProjectPath sd)
                       then extractProjectName (extractProjectPath sd) else projectName s),
       metadata := (metadata s)
         \<lparr>workingDirectory := (if truthy (sd_workingDirectory sd) then sd_workingDirectory sd
                               else workingDirectory (metadata s)),
          userAgent := (if truthy (sd_userAgent sd) then sd_userAgent sd
                        else userAgent (metadata s)),
          clientVersion := (if truthy (sd_clientVersion sd) then sd_clientVersion sd
                            else clientVersion (metadata s))\<rparr>\<rparr>"

definition newSession :: "string \<Rightarrow> SessionData \<Rightarrow> int \<Rightarrow> SessionInfo" where
  "newSession sessionId sd now =
     \<lparr>sid = sessionId,
      projectPath = extractProjectPath sd,
      projectName = extractProjectName (extractProjectPath sd),
      lastActivity = now,
      isActive = True,
      utteranceQueue = [],
      metadata = \<lparr>workingDirectory = sd_workingDirectory sd,
                  userAgent = sd_userAgent sd,
                  clientVersion = sd_clientVersion sd\<rparr>\<rparr>"

text \<open>\<open>registerSession\<close> returns the session id and leaves the registry updated.\<close>

definition registerSession :: "SessionData \<Rightarrow> int \<Rightarrow> SessionManager \<Rightarrow> string \<times> SessionManager" where
  "registerSession sd now m =
     (let sessionId = generateSessionId sd now
      in case getSession m sessionId of
           None \<Rightarrow>
             (sessionId,
              m\<lparr>sessions := sessions m @ [newSession sessionId sd now],
                activeSessionId := (if \<not> truthy (activeSessionId m) then Some sessionId
                                    else activeSessionId m)\<rparr>)
         | Some _ \<Rightarrow>
             (sessionId,
              m\<lparr>sessions := map (\<lambda>s. if sid s = sessionId then refreshSession sd now s else s)
                                (sessions m)\<rparr>))"

text \<open>
  The re-election of lines 173-177 and 194-198: the candidates sorted by most recent
  activity, the first one's id or \<open>null\<close>.
\<close>

definition electActive :: "SessionInfo list \<Rightarrow> string option" where
  "electActive candidates =
     (case sort_key (\<lambda>s. - lastActivity s) candidates of
        [] \<Rightarrow> None
      | first # _ \<Rightarrow> Some (sid first))"

definition markSessionInactive :: "string \<Rightarrow> int \<Rightarrow> SessionManager \<Rightarrow> SessionManager" where
  "markSessionInactive sessionId now m =
     (case getSession m sessionId of
        None \<Rightarrow> m
      | Some _ \<Rightarrow>
          (let marked = map (\<lambda>s. if sid s = sessionId
                                  then s\<lparr>isActive := False, lastActivity := now\<rparr> else s)
                            (sessions m)
           in m\<lparr>sessions := marked,
                activeSessionId :=
                  (if activeSessionId m = Some sessionId
                   then electActive (filter (\<lambda>s. isActive s \<and> sid s \<noteq> sessionId) marked)
                   else activeSessionId m)\<rparr>))"

definition removeSession :: "string \<Rightarrow> SessionManager \<Rightarrow> SessionManager" where
  "removeSession sessionId m =
     (case getSession m sessionId of
        None \<Rightarrow> m
      | Some _ \<Rightarrow>
          (let remaining = filter (\<lambda>s. sid s \<noteq> sessionId) (sessions m)
           in m\<lparr>sessions := remaining,
                activeSessionId :=
                  (if activeSessionId m = Some sessionId
                   then electActive (filter isActive remaining)
                   else activeSessionId m)\<rparr>))"

text \<open>A history of registry calls, replayed from the registry the constructor builds.\<close>

datatype registry_call =
    RegisterSession SessionData int
  | MarkSessionInactive string int
  | RemoveSession string

fun applyCall :: "SessionManager \<Rightarrow> registry_call \<Rightarrow> SessionManager" where
  "applyCall m (RegisterSession sd now) = snd (registerSession sd now m)"
| "applyCall m (MarkSessionInactive k now) = markSessionInactive k now m"
| "applyCall m (RemoveSession k) = removeSession k m"

definition runCalls :: "registry_call list \<Rightarrow> SessionManager" where
  "runCalls calls = foldl applyCall emptyManager calls"

text \<open>
  The active-session pointer is \<open>null\<close>, or it is the id of a registered session whose
  \<open>isActive\<close> flag is set.
\<close>

definition activePointerValid :: "SessionManager \<Rightarrow> bool" where
  "activePointerValid m =
     (case activeSessionId m of
        None \<Rightarrow> True
      | Some a \<Rightarrow> (case getSession m a of None \<Rightarrow> False | Some s \<Rightarrow> isActive s))"

section \<open>The server state (unified-server.ts)\<close>

record VoicePreferences =
  voiceResponsesEnabled :: bool
  voiceInputActive :: bool

text \<open>
  The module-level variables of lines 100-116: the registry, the legacy global queue kept
  "for backward compatibility during transition", the two timestamps and the preferences.
\<close>

record server_state =
  sessionManager :: SessionManager
  queue :: UtteranceQueue
  lastToolUseTimestamp :: "int option"
  lastSpeakTimestamp :: "int option"
  voicePreferences :: VoicePreferences

text \<open>The two environment toggles of lines 28-29, read once at start-up.\<close>

record config =
  AUTO_DELIVER_VOICE_INPUT :: bool
  AUTO_DELIVER_VOICE_INPUT_BEFORE_TOOLS :: bool

definition WAIT_TIMEOUT_SECONDS :: int where
  "WAIT_TIMEOUT_SECONDS = 60"

definition initialState :: server_state where
  "initialState =
     \<lparr>sessionManager = emptyManager, queue = [],
      lastToolUseTimestamp = None, lastSpeakTimestamp = None,
      voicePreferences = \<lparr>voiceResponsesEnabled = False, voiceInputActive = False\<rparr>\<rparr>"

text \<open>\<open>utterances.filter(u => u.status === 'pending')\<close> and its sibling for \<open>'delivered'\<close>.\<close>

definition pendingOf :: "UtteranceQueue \<Rightarrow> Utterance list" where
  "pendingOf q = filter (\<lambda>u. status u = Pending) q"

definition deliveredOf :: "UtteranceQueue \<Rightarrow> Utterance list" where
  "deliveredOf q = filter (\<lambda>u. status u = Delivered) q"

text \<open>A mutation of the queue object a registered session owns.\<close>

definition updateSessionQueue :: "string \<Rightarrow> (UtteranceQueue \<Rightarrow> UtteranceQueue) \<Rightarrow> server_state \<Rightarrow> server_state" where
  "updateSessionQueue k f st =
     st\<lparr>sessionManager := (sessionManager st)
          \<lparr>sessions := map (\<lambda>s. if sid s = k then s\<lparr>utteranceQueue := f (utteranceQueue s)\<rparr> else s)
                            (sessions (sessionManager st))\<rparr>\<rparr>"

text \<open>
  The sessions other than the active one, in the order of \<open>getAllSessions\<close>
  (\<open>!activeSession || session.id !== activeSession.id\<close>).
\<close>

definition otherSessions :: "SessionManager \<Rightarrow> SessionInfo list" where
  "otherSessions m =
     (case getActiveSession m of
        None \<Rightarrow> getAllSessions m
      | Some a \<Rightarrow> filter (\<lambda>session. sid session \<noteq> sid a) (getAllSessions m))"

subsection \<open>Dequeue (lines 495-549)\<close>

datatype queue_source = Global | Session

type_synonym pending_entry = "Utterance \<times> queue_source \<times> string option"

definition collectPending :: "server_state \<Rightarrow> pending_entry list" where
  "collectPending st =
     (case getActiveSession (sessionManager st) of
        None \<Rightarrow> []
      | Some a \<Rightarrow> map (\<lambda>u. (u, Session, Some (sid a))) (pendingOf (utteranceQueue a)))
     @ concat (map (\<lambda>session. map (\<lambda>u. (u, Session, Some (sid session)))
                                  (pendingOf (utteranceQueue session)))
                   (otherSessions (sessionManager st)))
     @ map (\<lambda>u. (u, Global, None)) (pendingOf (queue st))"

text \<open>Lines 531-540: one entry marked delivered in the queue it was collected from.\<close>

fun deliverEntry :: "server_state \<Rightarrow> pending_entry \<Rightarrow> server_state" where
  "deliverEntry st (utterance, Global, sessionId) =
     st\<lparr>queue := markDelivered (uid utterance) (queue st)\<rparr>"
| "deliverEntry st (utterance, Session, sessionId) =
     (case sessionId of
        None \<Rightarrow> st
      | Some k \<Rightarrow>
          (if k = [] then st
           else (case getSession (sessionManager st) k of
                   None \<Rightarrow> st
                 | Some _ \<Rightarrow> updateSessionQueue k (inMemoryMarkDelivered (uid utterance)) st)))"

record dequeue_result =
  d_success :: bool
  d_error :: "string option"
  d_utterances :: "(string \<times> int) list option"

definition dequeueUtterancesCore :: "server_state \<Rightarrow> dequeue_result \<times> server_state" where
  "dequeueUtterancesCore st =
     (if \<not> voiceInputActive (voicePreferences st)
      then (\<lparr>d_success = False,
             d_error = Some ''Voice input is not active. Cannot dequeue utterances when voice input is disabled.'',
             d_utterances = None\<rparr>, st)
      else (let allPendingUtterances =
                  sort_key (\<lambda>e. - timestamp (fst e)) (collectPending st)
            in (\<lparr>d_success = True, d_error = None,
                 d_utterances = Some (map (\<lambda>e. (utext (fst e), timestamp (fst e)))
                                          allPendingUtterances)\<rparr>,
                foldl deliverEntry st allPendingUtterances)))"

text \<open>The endpoint \<open>/api/dequeue-utterances\<close>: status 400 for an error result.\<close>

definition dequeueEndpoint :: "server_state \<Rightarrow> (nat \<times> dequeue_result) \<times> server_state" where
  "dequeueEndpoint st =
     (let (result, st') = dequeueUtterancesCore st
      in ((if \<not> d_success result \<and> truthy (d_error result) then 400 else 200, result), st'))"

subsection \<open>The blocking wait (lines 564-708)\<close>

record wait_result =
  w_success :: bool
  w_error :: "string option"
  w_utterances :: "Utterance list option"
  w_message :: "string option"
  w_count :: "nat option"
  w_waitTime :: "int option"

definition hasId :: "string \<Rightarrow> UtteranceQueue \<Rightarrow> bool" where
  "hasId i q = (find (\<lambda>u. uid u = i) q \<noteq> None)"

text \<open>Lines 598-616: the pending utterances of the active session, the others, the global queue.\<close>

definition waitPending :: "server_state \<Rightarrow> Utterance list" where
  "waitPending st =
     (case getActiveSession (sessionManager st) of
        None \<Rightarrow> []
      | Some a \<Rightarrow> pendingOf (utteranceQueue a))
     @ concat (map (\<lambda>session. pendingOf (utteranceQueue session))
                   (otherSessions (sessionManager st)))
     @ pendingOf (queue st)"

text \<open>
  Lines 641-652: every other session that holds the id marks it; \<open>marked\<close> records whether
  one did.
\<close>

fun markInOthers :: "string \<Rightarrow> string list \<Rightarrow> bool \<times> server_state \<Rightarrow> bool \<times> server_state" where
  "markInOthers i [] acc = acc"
| "markInOthers i (k # ks) (marked, st) =
     (case getSession (sessionManager st) k of
        None \<Rightarrow> markInOthers i ks (marked, st)
      | Some session \<Rightarrow>
          (if hasId i (utteranceQueue session)
           then markInOthers i ks (True, updateSessionQueue k (inMemoryMarkDelivered i) st)
           else markInOthers i ks (marked, st)))"

text \<open>Lines 628-661: one found utterance marked in the first place that knows its id.\<close>

definition waitDeliver :: "server_state \<Rightarrow> Utterance \<Rightarrow> server_state" where
  "waitDeliver st utterance =
     (let i = uid utterance;
          others = map sid (otherSessions (sessionManager st));
          afterActive =
            (case getActiveSession (sessionManager st) of
               None \<Rightarrow> (False, st)
             | Some a \<Rightarrow>
                 (if hasId i (utteranceQueue a)
                  then (True, updateSessionQueue (sid a) (inMemoryMarkDelivered i) st)
                  else (False, st)));
          afterOthers =
            (if fst afterActive then afterActive else markInOthers i others afterActive)
      in if fst afterOthers then snd afterOthers
         else if hasId i (queue (snd afterOthers))
              then (snd afterOthers)\<lparr>queue := markDelivered i (queue (snd afterOthers))\<rparr>
              else snd afterOthers)"

text \<open>
  One turn of the polling loop is described by what the loop cannot see from inside: the
  value \<open>Date.now()\<close> has when the loop condition is evaluated, and what the request
  handlers that run during the \<open>await\<close>s after that turn do to the shared state.
\<close>

type_synonym poll = "int \<times> (server_state \<Rightarrow> server_state)"

text \<open>The three results without utterances: lines 567-570, 590-595 and 689-694.\<close>

definition notActiveResult :: wait_result where
  "notActiveResult =
     \<lparr>w_success = False,
      w_error = Some ''Voice input is not active. Cannot wait for utterances when voice input is disabled.'',
      w_utterances = None, w_message = None, w_count = None, w_waitTime = None\<rparr>"

definition deactivatedResult :: "int \<Rightarrow> wait_result" where
  "deactivatedResult waited =
     \<lparr>w_success = True, w_error = None, w_utterances = Some [],
      w_message = Some ''Voice input was deactivated'',
      w_count = None, w_waitTime = Some waited\<rparr>"

definition timedOutResult :: wait_result where
  "timedOutResult =
     \<lparr>w_success = True, w_error = None, w_utterances = Some [],
      w_message = Some (''No utterances found after waiting '' @
                        showInt WAIT_TIMEOUT_SECONDS @ '' seconds.''),
      w_count = None, w_waitTime = Some (WAIT_TIMEOUT_SECONDS * 1000)\<rparr>"

text \<open>
  The loop of lines 585-685 over the turns it is given; \<open>None\<close> when they are used up
  before the loop has returned. The time a result reports as waited is read off the clock
  of the turn. The notifications and the sound are not part of the state.
\<close>

fun waitLoop :: "int \<Rightarrow> poll list \<Rightarrow> server_state \<Rightarrow> (wait_result \<times> server_state) option" where
  "waitLoop startTime [] st = None"
| "waitLoop startTime ((clock, others) # rest) st =
     (if \<not> (clock - startTime < WAIT_TIMEOUT_SECONDS * 1000)
      then Some (timedOutResult, st)
      else if \<not> voiceInputActive (voicePreferences st)
      then Some (deactivatedResult (clock - startTime), st)
      else if waitPending st \<noteq> []
      then (let sortedUtterances = sort_key timestamp (waitPending st)
            in Some (\<lparr>w_success = True, w_error = None,
                      w_utterances = Some (map (\<lambda>u. u\<lparr>status := Delivered\<rparr>) sortedUtterances),
                      w_message = None,
                      w_count = Some (length sortedUtterances),
                      w_waitTime = Some (clock - startTime)\<rparr>,
                     foldl waitDeliver st sortedUtterances))
      else waitLoop startTime rest (others st))"

definition waitForUtteranceCore :: "int \<Rightarrow> poll list \<Rightarrow> server_state \<Rightarrow> (wait_result \<times> server_state) option" where
  "waitForUtteranceCore startTime polls st =
     (if \<not> voiceInputActive (voicePreferences st)
      then Some (notActiveResult, st)
      else waitLoop startTime polls st)"


subsection \<open>The hook decision (lines 777-919)\<close>

datatype hook_action = Tool | Speak | Wait | Stop | PostTool

datatype decision = Approve | Block

record hook_result =
  decision :: decision
  reason :: "string option"

fun joinWith :: "string \<Rightarrow> string list \<Rightarrow> string" where
  "joinWith sep [] = []"
| "joinWith sep [x] = x"
| "joinWith sep (x # y # ys) = x @ sep @ joinWith sep (y # ys)"

definition getVoiceResponseReminder :: "server_state \<Rightarrow> string" where
  "getVoiceResponseReminder st =
     (if voiceResponsesEnabled (voicePreferences st)
      then [CHR 0x0A, CHR 0x0A] @ ''The user has enabled voice responses, so use the '' @
           [CHR 0x27] @ ''speak'' @ [CHR 0x27] @ '' tool to respond to the user'' @ [CHR 0x27] @
           ''s voice input before proceeding.''
      else [])"

text \<open>\<open>formatVoiceUtterances\<close> reads only the \<open>text\<close> of what it is given.\<close>

definition formatVoiceUtterances :: "server_state \<Rightarrow> string list \<Rightarrow> string" where
  "formatVoiceUtterances st texts =
     ''Assistant received voice input from the user ('' @ toString10 (length texts) @
     '' utterance'' @ (if length texts \<noteq> 1 then ''s'' else []) @ ''):'' @ [CHR 0x0A, CHR 0x0A] @
     joinWith [CHR 0x0A] (map (\<lambda>t. [CHR 0x22] @ t @ [CHR 0x22]) texts) @
     getVoiceResponseReminder st"

text \<open>
  Step 1, the pending-utterance gate: the verdict when the gate returns one, and the state
  the handler goes on with.
\<close>

definition pendingGate :: "config \<Rightarrow> hook_action \<Rightarrow> server_state \<Rightarrow> hook_result option \<times> server_state" where
  "pendingGate cfg attemptedAction st =
     (if voiceInputActive (voicePreferences st) \<and> pendingOf (queue st) \<noteq> []
      then (if AUTO_DELIVER_VOICE_INPUT cfg
            then (if attemptedAction = Tool \<and> \<not> AUTO_DELIVER_VOICE_INPUT_BEFORE_TOOLS cfg
                  then (None, st)
                  else (let (dequeueResult, st') = dequeueUtterancesCore st
                        in case d_utterances dequeueResult of
                             None \<Rightarrow> (None, st')
                           | Some us \<Rightarrow>
                               (if d_success dequeueResult \<and> us \<noteq> []
                                then (Some \<lparr>decision = Block,
                                            reason = Some (formatVoiceUtterances st'
                                                             (map fst (rev us)))\<rparr>, st')
                                else (None, st'))))
            else (Some \<lparr>decision = Block,
                        reason = Some (toString10 (length (pendingOf (queue st))) @
                          '' pending utterance(s) available. Use the dequeue_utterances tool to retrieve them.'')\<rparr>,
                  st))
      else (None, st))"

text \<open>Step 2, the gate for delivered utterances still waiting for a spoken response.\<close>

definition deliveredGate :: "hook_action \<Rightarrow> server_state \<Rightarrow> hook_result option" where
  "deliveredGate attemptedAction st =
     (if voiceResponsesEnabled (voicePreferences st) \<and> deliveredOf (queue st) \<noteq> []
      then (if attemptedAction = Speak then Some \<lparr>decision = Approve, reason = None\<rparr>
            else Some \<lparr>decision = Block,
                       reason = Some (toString10 (length (deliveredOf (queue st))) @
                         '' delivered utterance(s) require voice response. Please use the speak tool to respond before proceeding.'')\<rparr>)
      else None)"

definition mustSpeakAfterTool :: "server_state \<Rightarrow> bool" where
  "mustSpeakAfterTool st =
     (voiceResponsesEnabled (voicePreferences st) \<and>
      (case lastToolUseTimestamp st of
         None \<Rightarrow> False
       | Some toolUse \<Rightarrow>
           (case lastSpeakTimestamp st of None \<Rightarrow> True | Some spoke \<Rightarrow> spoke < toolUse)))"

text \<open>Lines 866-901: the verdict the stop hook makes of the outcome of the wait.\<close>

definition stopVerdict :: "server_state \<Rightarrow> wait_result \<Rightarrow> hook_result" where
  "stopVerdict st data =
     (if \<not> w_success data \<and> truthy (w_error data)
      then \<lparr>decision = Approve, reason = w_error data\<rparr>
      else (case w_utterances data of
              Some (u # us) \<Rightarrow>
                \<lparr>decision = Block,
                 reason = Some (formatVoiceUtterances st (map utext (u # us)))\<rparr>
            | _ \<Rightarrow> \<lparr>decision = Approve,
                    reason = Some (orElse (w_message data) ''No utterances found during wait'')\<rparr>))"

text \<open>Steps 3 to 6, once no gate has returned.\<close>

fun actionHandling :: "config \<Rightarrow> int \<Rightarrow> poll list \<Rightarrow> hook_action \<Rightarrow> server_state \<Rightarrow> (hook_result \<times> server_state) option" where
  "actionHandling cfg now polls Tool st =
     Some (\<lparr>decision = Approve, reason = None\<rparr>, st\<lparr>lastToolUseTimestamp := Some now\<rparr>)"
| "actionHandling cfg now polls PostTool st =
     Some (\<lparr>decision = Approve, reason = None\<rparr>, st\<lparr>lastToolUseTimestamp := Some now\<rparr>)"
| "actionHandling cfg now polls Wait st =
     (if mustSpeakAfterTool st
      then Some (\<lparr>decision = Block,
                  reason = Some ''Assistant must speak after using tools. Please use the speak tool to respond before waiting for utterances.''\<rparr>, st)
      else Some (\<lparr>decision = Approve, reason = None\<rparr>, st))"
| "actionHandling cfg now polls Speak st = Some (\<lparr>decision = Approve, reason = None\<rparr>, st)"
| "actionHandling cfg now polls Stop st =
     (if mustSpeakAfterTool st
      then Some (\<lparr>decision = Block,
                  reason = Some ''Assistant must speak after using tools. Please use the speak tool to respond before proceeding.''\<rparr>, st)
      else if voiceInputActive (voicePreferences st)
      then (if AUTO_DELIVER_VOICE_INPUT cfg
            then (case waitForUtteranceCore now polls st of
                    None \<Rightarrow> None
                  | Some (data, st') \<Rightarrow> Some (stopVerdict st' data, st'))
            else Some (\<lparr>decision = Block,
                        reason = Some ''Assistant tried to end its response, but voice input is active. Stopping is not allowed without first checking for voice input. Assistant should now use wait_for_utterance to check for voice input''\<rparr>, st))
      else Some (\<lparr>decision = Approve, reason = Some ''No utterances since last timeout''\<rparr>, st))"

text \<open>
  \<open>handleHookRequest\<close>: the verdict and the state it leaves; \<open>None\<close> only when the stop
  hook waits and the turns it is given end before the wait returns.
\<close>

definition handleHookRequest :: "config \<Rightarrow> int \<Rightarrow> poll list \<Rightarrow> hook_action \<Rightarrow> server_state \<Rightarrow> (hook_result \<times> server_state) option" where
  "handleHookRequest cfg now polls attemptedAction st =
     (case pendingGate cfg attemptedAction st of
        (Some verdict, st1) \<Rightarrow> Some (verdict, st1)
      | (None, st1) \<Rightarrow>
          (case deliveredGate attemptedAction st1 of
             Some verdict \<Rightarrow> Some (verdict, st1)
           | None \<Rightarrow> actionHandling cfg now polls attemptedAction st1))"

subsection \<open>The speak request (lines 1240-1324)\<close>

record speak_response =
  sp_status :: nat
  sp_error :: "string option"
  sp_success :: "bool option"
  sp_message :: "string option"
  sp_respondedCount :: "nat option"
  sp_sessionId :: "string option"
  sp_sessionName :: "string option"

text \<open>
  Lines 1259-1293: the session the response is attributed to, its id and its name: the
  active session, else the first session with a delivered utterance, else the global queue.
\<close>

definition speakingSession :: "server_state \<Rightarrow> string option \<times> string option" where
  "speakingSession st =
     (let fromActive =
            (case getActiveSession (sessionManager st) of
               None \<Rightarrow> (None, None)
             | Some a \<Rightarrow> (if deliveredOf (utteranceQueue a) \<noteq> []
                          then (Some (sid a), projectName a) else (None, None)));
          fromSessions =
            (if truthy (fst fromActive) then fromActive
             else (case find (\<lambda>session. deliveredOf (utteranceQueue session) \<noteq> [])
                          (getAllSessions (sessionManager st)) of
                     None \<Rightarrow> fromActive
                   | Some session \<Rightarrow> (Some (sid session), projectName session)))
      in if truthy (fst fromSessions) then fromSessions
         else if deliveredOf (queue st) \<noteq> [] then (Some ''global'', Some ''Global Queue'')
         else fromSessions)"

text \<open>
  The handler of \<open>/api/speak\<close>; \<open>text\<close> is \<open>req.body.text\<close>, absent or a string. The
  notification sent to the browsers is not part of the state.
\<close>

definition speakEndpoint :: "string option \<Rightarrow> int \<Rightarrow> server_state \<Rightarrow> speak_response \<times> server_state" where
  "speakEndpoint text now st =
     (if \<not> truthy text \<or> \<not> truthy (map_option trim text)
      then (\<lparr>sp_status = 400, sp_error = Some ''Text is required'', sp_success = None,
             sp_message = None, sp_respondedCount = None,
             sp_sessionId = None, sp_sessionName = None\<rparr>, st)
      else if \<not> voiceResponsesEnabled (voicePreferences st)
      then (\<lparr>sp_status = 400, sp_error = Some ''Voice responses are disabled'', sp_success = None,
             sp_message = Some ''Cannot speak when voice responses are disabled'',
             sp_respondedCount = None, sp_sessionId = None, sp_sessionName = None\<rparr>, st)
      else (\<lparr>sp_status = 200, sp_error = None, sp_success = Some True,
             sp_message = Some ''Text spoken successfully'',
             sp_respondedCount = Some (length (deliveredOf (queue st))),
             sp_sessionId = fst (speakingSession st),
             sp_sessionName = snd (speakingSession st)\<rparr>,
            st\<lparr>queue := map (\<lambda>u. if status u = Delivered then u\<lparr>status := Responded\<rparr> else u)
                            (queue st),
               lastSpeakTimestamp := Some now\<rparr>))"

subsection \<open>Hook requests as they arrive (lines 921-934)\<close>

text \<open>
  \<open>registerSessionFromRequest\<close>: the body's \<open>session_id\<close>, \<open>cwd\<close> and \<open>transcript_path\<close>,
  the two headers, and \<open>process.cwd()\<close>, the directory the server runs in, which is never
  the empty string.
\<close>

record hook_request =
  body_session_id :: "string option"
  body_cwd :: "string option"
  body_transcript_path :: "string option"
  header_user_agent :: "string option"
  header_client_version :: "string option"

definition sessionDataOfRequest :: "string \<Rightarrow> hook_request \<Rightarrow> SessionData" where
  "sessionDataOfRequest processCwd req =
     \<lparr>sd_sessionId = body_session_id req,
      sd_projectPath = None,
      sd_workingDirectory = Some (orElse (body_cwd req) processCwd),
      sd_userAgent = header_user_agent req,
      sd_clientVersion = header_client_version req,
      sd_transcriptPath = body_transcript_path req\<rparr>"

definition registerSessionFromRequest :: "string \<Rightarrow> hook_request \<Rightarrow> int \<Rightarrow> server_state \<Rightarrow> string \<times> server_state" where
  "registerSessionFromRequest processCwd req now st =
     (let (sessionId, m) = registerSession (sessionDataOfRequest processCwd req) now (sessionManager st)
      in (sessionId, st\<lparr>sessionManager := m\<rparr>))"

section \<open>States the registry and the queues can be in\<close>

text \<open>
  The keys of a \<open>Map\<close> are distinct, and the registry keeps its pointer valid.
\<close>

definition registryInv :: "SessionManager \<Rightarrow> bool" where
  "registryInv m = (distinct (map sid (sessions m)) \<and> activePointerValid m)"

text \<open>No key of the registry is the empty string.\<close>

definition keysNonEmpty :: "SessionManager \<Rightarrow> bool" where
  "keysNonEmpty m = list_all (\<lambda>s. sid s \<noteq> []) (sessions m)"

section \<open>Example data\<close>

definition noHints :: SessionData where
  "noHints = \<lparr>sd_sessionId = None, sd_projectPath = None, sd_workingDirectory = None,
              sd_userAgent = None, sd_clientVersion = None, sd_transcriptPath = None\<rparr>"

definition sdA :: SessionData where
  "sdA = noHints\<lparr>sd_sessionId := Some ''a''\<rparr>"

definition sdB :: SessionData where
  "sdB = noHints\<lparr>sd_sessionId := Some ''b''\<rparr>"

text \<open>Two sessions registered, then the first one deactivated.\<close>

definition afterDeactivation :: SessionManager where
  "afterDeactivation =
     runCalls [RegisterSession sdA 1, RegisterSession sdB 2, MarkSessionInactive ''a'' 3]"

text \<open>A hook request that carries no session id, no directory, no transcript path and no headers.\<close>

definition bareRequest :: hook_request where
  "bareRequest = \<lparr>body_session_id = None, body_cwd = None, body_transcript_path = None,
                   header_user_agent = None, header_client_version = None\<rparr>"

text \<open>The toggles: the defaults, auto-delivery switched off, and delivery before tools as well.\<close>

definition defaultConfig :: config where
  "defaultConfig = \<lparr>AUTO_DELIVER_VOICE_INPUT = True, AUTO_DELIVER_VOICE_INPUT_BEFORE_TOOLS = False\<rparr>"

definition manualConfig :: config where
  "manualConfig = \<lparr>AUTO_DELIVER_VOICE_INPUT = False, AUTO_DELIVER_VOICE_INPUT_BEFORE_TOOLS = False\<rparr>"

definition eagerConfig :: config where
  "eagerConfig = \<lparr>AUTO_DELIVER_VOICE_INPUT = True, AUTO_DELIVER_VOICE_INPUT_BEFORE_TOOLS = True\<rparr>"

definition hello :: Utterance where
  "hello = \<lparr>uid = ''u1'', utext = ''hello'', timestamp = 10, status = Pending\<rparr>"

definition earlier :: Utterance where
  "earlier = \<lparr>uid = ''u0'', utext = ''earlier'', timestamp = 5, status = Delivered\<rparr>"

text \<open>The microphone is open; voice responses are off.\<close>

definition listening :: server_state where
  "listening = initialState
     \<lparr>voicePreferences := \<lparr>voiceResponsesEnabled = False, voiceInputActive = True\<rparr>\<rparr>"

text \<open>Scenario A: one pending utterance, in the global queue.\<close>

definition scenarioA :: server_state where
  "scenarioA = listening\<lparr>queue := [hello]\<rparr>"

text \<open>Both preferences on; the global queue holds a delivered and a pending utterance.\<close>

definition bothGates :: server_state where
  "bothGates = initialState
     \<lparr>queue := [earlier, hello],
      voicePreferences := \<lparr>voiceResponsesEnabled = True, voiceInputActive = True\<rparr>\<rparr>"

text \<open>
  One registered session, the active one, and an utterance in its queue: what the state
  is after a hook request of session \<open>a\<close> and a voice input routed to the active session.
\<close>

definition sessionWith :: "Utterance list \<Rightarrow> SessionManager" where
  "sessionWith q =
     \<lparr>sessions = [(newSession ''a'' sdA 1)\<lparr>utteranceQueue := q\<rparr>], activeSessionId = Some ''a''\<rparr>"

definition sessionPending :: server_state where
  "sessionPending = listening\<lparr>sessionManager := sessionWith [hello]\<rparr>"

definition sessionDelivered :: server_state where
  "sessionDelivered = initialState
     \<lparr>sessionManager := sessionWith [hello\<lparr>status := Delivered\<rparr>],
      voicePreferences := \<lparr>voiceResponsesEnabled = True, voiceInputActive = False\<rparr>\<rparr>"

text \<open>
  Voice responses on; a delivered and a pending utterance in the global queue, a delivered
  one in the queue of session \<open>a\<close>.
\<close>

definition speakState :: server_state where
  "speakState = initialState
     \<lparr>sessionManager := sessionWith [hello\<lparr>status := Delivered\<rparr>],
      queue := [earlier, hello],
      voicePreferences := \<lparr>voiceResponsesEnabled = True, voiceInputActive = False\<rparr>\<rparr>"

section \<open>What a dequeue is meant to achieve\<close>

text \<open>
  The words of the specification, to compare \<open>dequeueUtterancesCore\<close> with: every pending
  utterance of every session queue and of the legacy global queue is delivered in the
  queue that owns it, and nothing else changes.
\<close>

definition deliverPending :: "UtteranceQueue \<Rightarrow> UtteranceQueue" where
  "deliverPending q = map (\<lambda>u. if status u = Pending then u\<lparr>status := Delivered\<rparr> else u) q"

definition allDelivered :: "server_state \<Rightarrow> server_state" where
  "allDelivered st =
     st\<lparr>sessionManager := (sessionManager st)
          \<lparr>sessions := map (\<lambda>s. s\<lparr>utteranceQueue := deliverPending (utteranceQueue s)\<rparr>)
                            (sessions (sessionManager st))\<rparr>,
        queue := deliverPending (queue st)\<rparr>"

text \<open>All utterances the server holds: the per-session queues and the global queue.\<close>

definition allUtterances :: "server_state \<Rightarrow> Utterance list" where
  "allUtterances st =
     concat (map utteranceQueue (sessions (sessionManager st))) @ queue st"

text \<open>
  The states a dequeue is run in: the keys of the registry are distinct and not empty
  (no id \<open>generateSessionId\<close> returns is empty), and the identifiers \<open>randomUUID()\<close>
  gave the utterances of one queue are distinct.
\<close>

definition queuesWellFormed :: "server_state \<Rightarrow> bool" where
  "queuesWellFormed st =
     (distinct (map sid (sessions (sessionManager st)))
      \<and> list_all (\<lambda>s. sid s \<noteq> [] \<and> distinct (map uid (utteranceQueue s)))
                  (sessions (sessionManager st))
      \<and> distinct (map uid (queue st)))"

text \<open>The utterances whose id is in a given set, delivered.\<close>

definition markSet :: "string set \<Rightarrow> UtteranceQueue \<Rightarrow> UtteranceQueue" where
  "markSet S q = map (\<lambda>u. if uid u \<in> S then u\<lparr>status := Delivered\<rparr> else u) q"

definition applyMarks :: "(string \<Rightarrow> string set) \<Rightarrow> string set \<Rightarrow> server_state \<Rightarrow> server_state" where
  "applyMarks S G st =
     st\<lparr>sessionManager := (sessionManager st)
          \<lparr>sessions := map (\<lambda>s. s\<lparr>utteranceQueue := markSet (S (sid s)) (utteranceQueue s)\<rparr>)
                            (sessions (sessionManager st))\<rparr>,
        queue := markSet G (queue st)\<rparr>"

fun sessionMarks :: "pending_entry \<Rightarrow> string \<Rightarrow> string set" where
  "sessionMarks (u, Session, Some k) x = (if x = k \<and> k \<noteq> [] then {uid u} else {})"
| "sessionMarks (u, src, sessionId) x = {}"

fun globalMarks :: "pending_entry \<Rightarrow> string set" where
  "globalMarks (u, Global, sessionId) = {uid u}"
| "globalMarks (u, Session, sessionId) = {}"

text \<open>
  Two sessions, \<open>b\<close> the active one, and the global queue, with pending utterances in all
  three and a responded one in the global queue; the microphone is open.
\<close>

definition threeQueues :: server_state where
  "threeQueues = initialState
     \<lparr>sessionManager :=
        \<lparr>sessions =
           [(newSession ''a'' sdA 1)
              \<lparr>utteranceQueue := [\<lparr>uid = ''u1'', utext = ''first'', timestamp = 10, status = Pending\<rparr>]\<rparr>,
            (newSession ''b'' sdB 2)
              \<lparr>utteranceQueue := [\<lparr>uid = ''u1'', utext = ''third'', timestamp = 30, status = Pending\<rparr>,
                                 \<lparr>uid = ''u2'', utext = ''old'', timestamp = 3, status = Delivered\<rparr>]\<rparr>],
         activeSessionId = Some ''b''\<rparr>,
      queue := [\<lparr>uid = ''u7'', utext = ''done'', timestamp = 4, status = Responded\<rparr>,
                \<lparr>uid = ''u8'', utext = ''second'', timestamp = 20, status = Pending\<rparr>],
      voicePreferences := \<lparr>voiceResponsesEnabled = False, voiceInputActive = True\<rparr>\<rparr>"

section \<open>Turns of the polling loop\<close>


text \<open>
  The first \<open>k\<close> turns all start before the timeout, with voice input active and nothing
  pending in any queue.
\<close>

fun quietUntil :: "int \<Rightarrow> poll list \<Rightarrow> nat \<Rightarrow> server_state \<Rightarrow> bool" where
  "quietUntil startTime polls 0 st = True"
| "quietUntil startTime [] (Suc k) st = False"
| "quietUntil startTime ((clock, others) # rest) (Suc k) st =
     (clock - startTime < WAIT_TIMEOUT_SECONDS * 1000
      \<and> voiceInputActive (voicePreferences st)
      \<and> waitPending st = []
      \<and> quietUntil startTime rest k (others st))"




section \<open>Properties of the registry\<close>

lemma map_sid_map:
  "(\<And>s. sid (f s) = sid s) \<Longrightarrow> map sid (map f xs) = map sid xs"
  by (induction xs) auto

lemma find_sid_map:
  "(\<And>s. sid (f s) = sid s) \<Longrightarrow>
   find (\<lambda>s. sid s = k) (map f xs) = map_option f (find (\<lambda>s. sid s = k) xs)"
  by (induction xs) auto

lemma find_sid_filter_other:
  "a \<noteq> k \<Longrightarrow> find (\<lambda>s. sid s = a) (filter (\<lambda>s. sid s \<noteq> k) xs) = find (\<lambda>s. sid s = a) xs"
  by (induction xs) auto

lemma find_sid_distinct:
  "distinct (map sid xs) \<Longrightarrow> x \<in> set xs \<Longrightarrow> find (\<lambda>s. sid s = sid x) xs = Some x"
  by (induction xs) (auto simp: rev_image_eqI)

lemma find_sid_None: "find (\<lambda>s. sid s = k) xs = None \<longleftrightarrow> k \<notin> sid ` set xs"
  by (induction xs) auto

lemma find_sid_Some:
  "find (\<lambda>s. sid s = k) xs = Some x \<Longrightarrow> sid x = k \<and> x \<in> set xs"
  by (induction xs) (auto split: if_splits)

lemma find_sid_append:
  "find (\<lambda>s. sid s = k) (xs @ ys) =
     (case find (\<lambda>s. sid s = k) xs of None \<Rightarrow> find (\<lambda>s. sid s = k) ys | Some x \<Rightarrow> Some x)"
  by (induction xs) auto

lemma electActive_Some:
  "electActive cs = Some a \<Longrightarrow> \<exists>x \<in> set cs. sid x = a"
proof -
  assume h: "electActive cs = Some a"
  then obtain x rest where s: "sort_key (\<lambda>s. - lastActivity s) cs = x # rest" and a: "a = sid x"
    by (auto simp: electActive_def split: list.splits)
  have "x \<in> set (sort_key (\<lambda>s. - lastActivity s) cs)" by (simp add: s)
  then have "x \<in> set cs" by simp
  with a show ?thesis by blast
qed

lemma registerSession_inv:
  assumes "registryInv m" shows "registryInv (snd (registerSession sd now m))"
proof (cases "getSession m (generateSessionId sd now)")
  case None
  let ?k = "generateSessionId sd now"
  from None have notin: "?k \<notin> sid ` set (sessions m)"
    by (simp add: getSession_def find_sid_None)
  have d: "distinct (map sid (sessions m @ [newSession ?k sd now]))"
    using assms notin by (simp add: registryInv_def newSession_def)
  have v: "activePointerValid
             (m\<lparr>sessions := sessions m @ [newSession ?k sd now],
                activeSessionId := (if \<not> truthy (activeSessionId m) then Some ?k
                                    else activeSessionId m)\<rparr>)"
    using assms None
    by (auto simp: registryInv_def activePointerValid_def getSession_def find_sid_append
        newSession_def truthy_def split: option.splits)
  from d v None show ?thesis
    by (simp add: registerSession_def registryInv_def Let_def)
next
  case (Some s)
  let ?k = "generateSessionId sd now"
  let ?f = "\<lambda>s. if sid s = ?k then refreshSession sd now s else s"
  have sidf: "\<And>s. sid (?f s) = sid s" by (simp add: refreshSession_def)
  have "map sid (map ?f (sessions m)) = map sid (sessions m)"
    by (rule map_sid_map) (simp add: refreshSession_def)
  with assms have m: "distinct (map sid (map ?f (sessions m)))"
    by (simp only: registryInv_def)
  have v: "activePointerValid (m\<lparr>sessions := map ?f (sessions m)\<rparr>)"
    using assms
    by (auto simp: registryInv_def activePointerValid_def getSession_def find_sid_map [where f = ?f, OF sidf]
        refreshSession_def split: option.splits)
  from m v Some show ?thesis
    by (simp add: registerSession_def registryInv_def Let_def del: map_map)
qed

lemma markSessionInactive_inv:
  assumes "registryInv m" shows "registryInv (markSessionInactive k now m)"
proof (cases "getSession m k")
  case None
  with assms show ?thesis by (simp add: markSessionInactive_def)
next
  case (Some s)
  let ?f = "\<lambda>s. if sid s = k then s\<lparr>isActive := False, lastActivity := now\<rparr> else s"
  let ?marked = "map ?f (sessions m)"
  have sidf: "\<And>s. sid (?f s) = sid s" by simp
  have "map sid ?marked = map sid (sessions m)"
    by (rule map_sid_map) simp
  with assms have d: "distinct (map sid ?marked)"
    by (simp only: registryInv_def)
  show ?thesis
  proof (cases "activeSessionId m = Some k")
    case False
    have v: "activePointerValid (m\<lparr>sessions := ?marked\<rparr>)"
      using assms False
      by (auto simp: registryInv_def activePointerValid_def getSession_def
          find_sid_map [where f = ?f, OF sidf] split: option.splits dest: find_sid_Some)
    from d v Some False show ?thesis
      by (simp add: markSessionInactive_def registryInv_def Let_def del: map_map)
  next
    case True
    let ?cands = "filter (\<lambda>s. isActive s \<and> sid s \<noteq> k) ?marked"
    have v: "activePointerValid (m\<lparr>sessions := ?marked, activeSessionId := electActive ?cands\<rparr>)"
    proof (cases "electActive ?cands")
      case None
      then show ?thesis by (simp add: activePointerValid_def)
    next
      case (Some a)
      then obtain x where x: "x \<in> set ?cands" "sid x = a"
        using electActive_Some by blast
      then have xin: "x \<in> set ?marked" and act: "isActive x" by auto
      from find_sid_distinct [OF d xin] x(2) have "find (\<lambda>s. sid s = a) ?marked = Some x"
        by simp
      with Some act show ?thesis
        by (simp add: activePointerValid_def getSession_def)
    qed
    from d v Some True show ?thesis
      by (simp add: markSessionInactive_def registryInv_def Let_def del: map_map)
  qed
qed

lemma removeSession_inv:
  assumes "registryInv m" shows "registryInv (removeSession k m)"
proof (cases "getSession m k")
  case None
  with assms show ?thesis by (simp add: removeSession_def)
next
  case (Some s)
  let ?remaining = "filter (\<lambda>s. sid s \<noteq> k) (sessions m)"
  from assms have d: "distinct (map sid ?remaining)"
    by (simp add: registryInv_def distinct_map_filter)
  show ?thesis
  proof (cases "activeSessionId m = Some k")
    case False
    have v: "activePointerValid (m\<lparr>sessions := ?remaining\<rparr>)"
      using assms False
      by (auto simp: registryInv_def activePointerValid_def getSession_def
          find_sid_filter_other split: option.splits)
    from d v Some False show ?thesis
      by (simp add: removeSession_def registryInv_def Let_def)
  next
    case True
    let ?cands = "filter isActive ?remaining"
    have v: "activePointerValid (m\<lparr>sessions := ?remaining, activeSessionId := electActive ?cands\<rparr>)"
    proof (cases "electActive ?cands")
      case None
      then show ?thesis by (simp add: activePointerValid_def)
    next
      case (Some a)
      then obtain x where x: "x \<in> set ?cands" "sid x = a"
        using electActive_Some by blast
      then have xin: "x \<in> set ?remaining" and act: "isActive x" by auto
      from find_sid_distinct [OF d xin] x(2) have "find (\<lambda>s. sid s = a) ?remaining = Some x"
        by simp
      with Some act show ?thesis
        by (simp add: activePointerValid_def getSession_def)
    qed
    from d v Some True show ?thesis
      by (simp add: removeSession_def registryInv_def Let_def)
  qed
qed

lemma applyCall_inv: "registryInv m \<Longrightarrow> registryInv (applyCall m c)"
  by (cases c) (simp_all add: registerSession_inv markSessionInactive_inv removeSession_inv)

lemma foldl_applyCall_inv: "registryInv m \<Longrightarrow> registryInv (foldl applyCall m cs)"
  by (induction cs arbitrary: m) (simp_all add: applyCall_inv)

lemma emptyManager_inv: "registryInv emptyManager"
  by (simp add: registryInv_def emptyManager_def activePointerValid_def)


lemmas registry_eval =
  runCalls_def sdA_def sdB_def noHints_def registerSession_def generateSessionId_def orElse_def
  getSession_def emptyManager_def newSession_def truthy_def markSessionInactive_def
  removeSession_def electActive_def refreshSession_def activePointerValid_def
  extractProjectPath_def extractProjectName_def Let_def

text \<open>
  C8. After any sequence of \<open>registerSession\<close>, \<open>markSessionInactive\<close> and \<open>removeSession\<close>
  calls that starts from the empty registry, the active-session pointer is \<open>null\<close>, or it
  is the id of a session present in the registry whose \<open>isActive\<close> flag is true.
\<close>

theorem active_session_invariant: "activePointerValid (runCalls calls)"
  using foldl_applyCall_inv [OF emptyManager_inv, of calls]
  by (simp add: runCalls_def registryInv_def)

theorem active_session_invariant_witness:
  "activePointerValid
     (runCalls [RegisterSession sdA 1, RegisterSession sdB 2, MarkSessionInactive ''a'' 3,
                RegisterSession sdA 4, RemoveSession ''b''])
   \<and> activeSessionId
       (runCalls [RegisterSession sdA 1, RegisterSession sdB 2, MarkSessionInactive ''a'' 3,
                  RegisterSession sdA 4, RemoveSession ''b'']) = Some ''a''"
  using active_session_invariant
    [of "[RegisterSession sdA 1, RegisterSession sdB 2, MarkSessionInactive ''a'' 3,
          RegisterSession sdA 4, RemoveSession ''b'']"]
  by (simp add: registry_eval)

text \<open>
  C10. When the id a \<open>registerSession\<close> call resolves to is already registered, the call
  returns that id, the session's \<open>isActive\<close> flag is true afterwards (also when
  \<open>markSessionInactive\<close> had cleared it), and the active-session pointer is what it was.
\<close>

theorem register_refreshes_existing:
  assumes "getSession m (generateSessionId sd now) = Some s"
  shows "fst (registerSession sd now m) = sid s
       \<and> map_option isActive (getSession (snd (registerSession sd now m)) (sid s)) = Some True
       \<and> activeSessionId (snd (registerSession sd now m)) = activeSessionId m"
proof -
  let ?k = "generateSessionId sd now"
  let ?f = "\<lambda>s. if sid s = ?k then refreshSession sd now s else s"
  from assms have k: "sid s = ?k"
    by (auto simp: getSession_def dest: find_sid_Some)
  have sidf: "\<And>s. sid (?f s) = sid s" by (simp add: refreshSession_def)
  have "find (\<lambda>s. sid s = ?k) (map ?f (sessions m)) = Some (?f s)"
    using assms by (simp add: find_sid_map [where f = ?f, OF sidf] getSession_def)
  then have "map_option isActive (find (\<lambda>s. sid s = ?k) (map ?f (sessions m))) = Some True"
    using k by (simp add: refreshSession_def)
  with assms k show ?thesis
    by (simp add: registerSession_def Let_def getSession_def)
qed

theorem register_refreshes_existing_witness:
  "map_option isActive (getSession afterDeactivation ''a'') = Some False
   \<and> activeSessionId afterDeactivation = Some ''b''
   \<and> fst (registerSession sdA 4 afterDeactivation) = ''a''
   \<and> map_option isActive (getSession (snd (registerSession sdA 4 afterDeactivation)) ''a'') = Some True
   \<and> activeSessionId (snd (registerSession sdA 4 afterDeactivation)) = Some ''b''"
proof -
  have g: "getSession afterDeactivation (generateSessionId sdA 4)
           = Some \<lparr>sid = ''a'', projectPath = None, projectName = None, lastActivity = 3,
                   isActive = False, utteranceQueue = [],
                   metadata = \<lparr>workingDirectory = None, userAgent = None, clientVersion = None\<rparr>\<rparr>"
    by (simp add: afterDeactivation_def registry_eval)
  have a: "activeSessionId afterDeactivation = Some ''b''"
    by (simp add: afterDeactivation_def registry_eval)
  have i: "map_option isActive (getSession afterDeactivation ''a'') = Some False"
    by (simp add: afterDeactivation_def registry_eval)
  from register_refreshes_existing [OF g] a i show ?thesis by simp
qed

section \<open>Session ids of anonymous callers\<close>

lemma noHints_key:
  "sessionKey noHints 1700000000000 = ''session_1700000000000:unknown''"
  by (simp add: sessionKey_def noHints_def extractProjectPath_def truthy_def orElse_def
      showInt_def toString10.simps digitTable_def)

lemma noHints_hash: "foldl hashStep 0 ''session_1700000000000:unknown'' = -864132047"
  by (simp add: hashStep_def)

lemma noHints_digits: "toString36 864132047 = ''eahcjz''"
  by (simp add: toString36.simps digitTable_def)

lemma noHints_sessionId: "sd_sessionId noHints = None"
  by (simp add: noHints_def)

lemma noHints_id: "generateSessionId noHints 1700000000000 = ''session_eahcjz''"
  unfolding generateSessionId_def simpleHash_def noHints_key noHints_hash
  by (simp add: noHints_digits orElse_def noHints_sessionId)

text \<open>
  C9. Two back-to-back \<open>registerSession\<close> calls without any hint are meant to return
  distinct ids. The seed is \<open>Date.now()\<close>, a count of milliseconds: two calls within one
  millisecond build the same key, get the same id, and the second call only refreshes the
  session the first one made.
\<close>

theorem anonymous_registrations_share_id:
  "fst (registerSession noHints 1700000000000 emptyManager) = ''session_eahcjz''
   \<and> fst (registerSession noHints 1700000000000
             (snd (registerSession noHints 1700000000000 emptyManager))) = ''session_eahcjz''
   \<and> map sid (sessions (snd (registerSession noHints 1700000000000
             (snd (registerSession noHints 1700000000000 emptyManager))))) = [''session_eahcjz'']"
  by (simp add: registerSession_def noHints_id getSession_def emptyManager_def newSession_def
      refreshSession_def Let_def)

text \<open>
  Hook requests never reach the seeded key at all: \<open>registerSessionFromRequest\<close> fills the
  working directory with \<open>process.cwd()\<close>, so every request without hints gets the id of
  that directory, whenever it arrives.
\<close>

lemma bare_key:
  "sessionKey (sessionDataOfRequest ''/srv'' bareRequest) now = ''/srv:/srv:no-useragent''"
  by (simp add: sessionKey_def sessionDataOfRequest_def bareRequest_def extractProjectPath_def
      truthy_def orElse_def)

lemma bare_hash: "foldl hashStep 0 ''/srv:/srv:no-useragent'' = 117171278"
  by (simp add: hashStep_def)

lemma bare_digits: "toString36 117171278 = ''1xrdxq''"
  by (simp add: toString36.simps digitTable_def)

lemma bare_sessionId: "sd_sessionId (sessionDataOfRequest ''/srv'' bareRequest) = None"
  by (simp add: sessionDataOfRequest_def bareRequest_def)

lemma bare_id:
  "generateSessionId (sessionDataOfRequest ''/srv'' bareRequest) now = ''session_1xrdxq''"
  unfolding generateSessionId_def simpleHash_def bare_key bare_hash
  by (simp add: bare_digits orElse_def bare_sessionId)

lemma hintless_requests_share_id:
  "fst (registerSessionFromRequest ''/srv'' bareRequest now st) = ''session_1xrdxq''"
  by (simp add: registerSessionFromRequest_def registerSession_def bare_id Let_def
      split: option.splits prod.splits)

section \<open>Properties of the hook decision\<close>

lemma pendingGate_state:
  "fst (pendingGate cfg a st) = None \<Longrightarrow> snd (pendingGate cfg a st) = st"
  by (auto simp: pendingGate_def dequeueUtterancesCore_def Let_def
      split: if_splits option.splits prod.splits)

lemma collectPending_global:
  "pendingOf (queue st) \<noteq> [] \<Longrightarrow> collectPending st \<noteq> []"
  by (simp add: collectPending_def)

lemma sort_key_Nil_iff: "sort_key f xs = [] \<longleftrightarrow> xs = []"
  by (metis length_0_conv length_sort)

lemma pendingGate_manual:
  assumes "voiceInputActive (voicePreferences st)" "\<not> AUTO_DELIVER_VOICE_INPUT cfg"
    "pendingOf (queue st) \<noteq> []"
  shows "pendingGate cfg a st =
     (Some \<lparr>decision = Block,
            reason = Some (toString10 (length (pendingOf (queue st))) @
              '' pending utterance(s) available. Use the dequeue_utterances tool to retrieve them.'')\<rparr>, st)"
  using assms by (simp add: pendingGate_def)

text \<open>
  What gate 1 does for pending utterances of the global queue when auto-delivery is off:
  every action is blocked with the instruction to dequeue, and the state is untouched.
\<close>

lemma pending_gate_manual_global:
  assumes "voiceInputActive (voicePreferences st)" "\<not> AUTO_DELIVER_VOICE_INPUT cfg"
    "pendingOf (queue st) \<noteq> []"
  shows "handleHookRequest cfg now polls a st =
     Some (\<lparr>decision = Block,
             reason = Some (toString10 (length (pendingOf (queue st))) @
               '' pending utterance(s) available. Use the dequeue_utterances tool to retrieve them.'')\<rparr>, st)"
  by (simp add: handleHookRequest_def pendingGate_manual [OF assms])

text \<open>
  What gate 2 does for delivered utterances of the global queue: only the pre-speak action
  passes.
\<close>

lemma delivered_gate_global:
  assumes "voiceResponsesEnabled (voicePreferences st)" "fst (pendingGate cfg a st) = None"
    "deliveredOf (queue st) \<noteq> []"
  shows "handleHookRequest cfg now polls a st =
     Some (if a = Speak then \<lparr>decision = Approve, reason = None\<rparr>
           else \<lparr>decision = Block,
                 reason = Some (toString10 (length (deliveredOf (queue st))) @
                   '' delivered utterance(s) require voice response. Please use the speak tool to respond before proceeding.'')\<rparr>, st)"
proof -
  from assms(2) pendingGate_state [OF assms(2)] have "pendingGate cfg a st = (None, st)"
    by (metis prod.collapse)
  with assms(1,3) show ?thesis
    by (simp add: handleHookRequest_def deliveredGate_def)
qed

lemmas state_eval =
  initialState_def listening_def scenarioA_def bothGates_def sessionPending_def sessionDelivered_def
  sessionWith_def hello_def earlier_def defaultConfig_def manualConfig_def eagerConfig_def
  emptyManager_def newSession_def sdA_def noHints_def pendingOf_def deliveredOf_def

text \<open>
  C1. With voice input active and auto-delivery disabled, a pending utterance in any queue
  should block every hook action. The gate reads the legacy global queue only: a pending
  utterance in the queue of the active session, where voice input is routed once a session
  exists, lets the tool hook through.
\<close>

theorem pending_in_session_queue_not_gated:
  "voiceInputActive (voicePreferences sessionPending)
   \<and> \<not> AUTO_DELIVER_VOICE_INPUT manualConfig
   \<and> map (\<lambda>s. map status (utteranceQueue s)) (sessions (sessionManager sessionPending)) = [[Pending]]
   \<and> handleHookRequest manualConfig 20 [] Tool sessionPending =
        Some (\<lparr>decision = Approve, reason = None\<rparr>, sessionPending\<lparr>lastToolUseTimestamp := Some 20\<rparr>)"
  by (simp add: handleHookRequest_def pendingGate_def deliveredGate_def state_eval)

text \<open>
  C2. With voice responses enabled and no pending-utterance gate firing, a delivered
  utterance anywhere should block every action but pre-speak. The gate reads the legacy
  global queue only: a delivered utterance in a session's queue lets the tool hook through.
\<close>

theorem delivered_in_session_queue_not_gated:
  "voiceResponsesEnabled (voicePreferences sessionDelivered)
   \<and> fst (pendingGate defaultConfig Tool sessionDelivered) = None
   \<and> map (\<lambda>s. map status (utteranceQueue s)) (sessions (sessionManager sessionDelivered)) = [[Delivered]]
   \<and> handleHookRequest defaultConfig 20 [] Tool sessionDelivered =
        Some (\<lparr>decision = Approve, reason = None\<rparr>, sessionDelivered\<lparr>lastToolUseTimestamp := Some 20\<rparr>)"
  by (simp add: handleHookRequest_def pendingGate_def deliveredGate_def state_eval)

lemma pendingGate_auto:
  assumes "voiceInputActive (voicePreferences st)" "AUTO_DELIVER_VOICE_INPUT cfg"
    "a \<noteq> Tool \<or> AUTO_DELIVER_VOICE_INPUT_BEFORE_TOOLS cfg"
    "pendingOf (queue st) \<noteq> []"
  shows "pendingGate cfg a st =
     (Some \<lparr>decision = Block,
            reason = Some (formatVoiceUtterances (snd (dequeueUtterancesCore st))
                       (map fst (rev (map (\<lambda>e. (utext (fst e), timestamp (fst e)))
                                      (sort_key (\<lambda>e. - timestamp (fst e)) (collectPending st))))))\<rparr>,
      snd (dequeueUtterancesCore st))"
  using assms collectPending_global [OF assms(4)]
  by (auto simp: pendingGate_def dequeueUtterancesCore_def Let_def sort_key_Nil_iff)

text \<open>
  C4, as the code has it. Voice input is active with a pending utterance in the global
  queue, voice responses are enabled with a delivered utterance in the global queue, and a
  tool invocation is attempted. With auto-delivery on and auto-delivery before tools off
  (the defaults), gate 1 steps aside for the tool action and gate 2 blocks it, the state
  untouched. With auto-delivery off, or with auto-delivery before tools on, gate 1 returns
  the blocking verdict and gate 2 is not reached.
\<close>

theorem tool_gate_precedence:
  assumes "voiceInputActive (voicePreferences st)" "pendingOf (queue st) \<noteq> []"
    "voiceResponsesEnabled (voicePreferences st)" "deliveredOf (queue st) \<noteq> []"
  shows "if AUTO_DELIVER_VOICE_INPUT cfg \<and> \<not> AUTO_DELIVER_VOICE_INPUT_BEFORE_TOOLS cfg
         then pendingGate cfg Tool st = (None, st)
              \<and> handleHookRequest cfg now polls Tool st =
                  Some (\<lparr>decision = Block,
                          reason = Some (toString10 (length (deliveredOf (queue st))) @
                            '' delivered utterance(s) require voice response. Please use the speak tool to respond before proceeding.'')\<rparr>,
                        st)
         else (\<exists>verdict. fst (pendingGate cfg Tool st) = Some verdict
                \<and> decision verdict = Block
                \<and> handleHookRequest cfg now polls Tool st =
                    Some (verdict, snd (pendingGate cfg Tool st)))"
proof (cases "AUTO_DELIVER_VOICE_INPUT cfg")
  case False
  with pendingGate_manual [OF assms(1) False assms(2), of Tool] show ?thesis
    by (simp add: handleHookRequest_def)
next
  case auto: True
  show ?thesis
  proof (cases "AUTO_DELIVER_VOICE_INPUT_BEFORE_TOOLS cfg")
    case True
    with auto pendingGate_auto [OF assms(1) auto _ assms(2), of Tool] show ?thesis
      by (simp add: handleHookRequest_def)
  next
    case False
    with auto assms show ?thesis
      by (simp add: handleHookRequest_def pendingGate_def deliveredGate_def)
  qed
qed

theorem tool_gate_precedence_witness:
  "voiceInputActive (voicePreferences bothGates) \<and> pendingOf (queue bothGates) \<noteq> []
   \<and> voiceResponsesEnabled (voicePreferences bothGates) \<and> deliveredOf (queue bothGates) \<noteq> []
   \<and> handleHookRequest manualConfig 20 [] Tool bothGates =
        Some (\<lparr>decision = Block,
                reason = Some ''1 pending utterance(s) available. Use the dequeue_utterances tool to retrieve them.''\<rparr>,
              bothGates)
   \<and> (\<exists>verdict. fst (pendingGate eagerConfig Tool bothGates) = Some verdict
         \<and> handleHookRequest eagerConfig 20 [] Tool bothGates =
             Some (verdict, snd (pendingGate eagerConfig Tool bothGates)))"
proof -
  have a: "voiceInputActive (voicePreferences bothGates)" by (simp add: state_eval)
  have b: "pendingOf (queue bothGates) \<noteq> []" by (simp add: state_eval)
  have c: "voiceResponsesEnabled (voicePreferences bothGates)" by (simp add: state_eval)
  have d: "deliveredOf (queue bothGates) \<noteq> []" by (simp add: state_eval)
  have m: "pendingGate manualConfig Tool bothGates =
             (Some \<lparr>decision = Block,
                    reason = Some ''1 pending utterance(s) available. Use the dequeue_utterances tool to retrieve them.''\<rparr>,
              bothGates)"
    by (simp add: pendingGate_def state_eval toString10.simps digitTable_def)
  have cm: "\<not> (AUTO_DELIVER_VOICE_INPUT manualConfig
               \<and> \<not> AUTO_DELIVER_VOICE_INPUT_BEFORE_TOOLS manualConfig)"
    by (simp add: state_eval)
  have ce: "\<not> (AUTO_DELIVER_VOICE_INPUT eagerConfig
               \<and> \<not> AUTO_DELIVER_VOICE_INPUT_BEFORE_TOOLS eagerConfig)"
    by (simp add: state_eval)
  from tool_gate_precedence [OF a b c d, of manualConfig 20 "[]"] cm m
  have 1: "handleHookRequest manualConfig 20 [] Tool bothGates =
        Some (\<lparr>decision = Block,
                reason = Some ''1 pending utterance(s) available. Use the dequeue_utterances tool to retrieve them.''\<rparr>,
              bothGates)"
    by auto
  from tool_gate_precedence [OF a b c d, of eagerConfig 20 "[]"] ce
  have 2: "\<exists>verdict. fst (pendingGate eagerConfig Tool bothGates) = Some verdict
         \<and> handleHookRequest eagerConfig 20 [] Tool bothGates =
             Some (verdict, snd (pendingGate eagerConfig Tool bothGates))"
    by auto
  from a b c d 1 2 show ?thesis by blast
qed

text \<open>
  C4 as stated fails under the default toggles: the tool invocation is blocked, but gate 1
  returns nothing and the verdict is the one of gate 2.
\<close>

theorem tool_gate_precedence_counterexample:
  "voiceInputActive (voicePreferences bothGates)
   \<and> map status (pendingOf (queue bothGates)) = [Pending]
   \<and> voiceResponsesEnabled (voicePreferences bothGates)
   \<and> map status (deliveredOf (queue bothGates)) = [Delivered]
   \<and> fst (pendingGate defaultConfig Tool bothGates) = None
   \<and> handleHookRequest defaultConfig 20 [] Tool bothGates =
        Some (\<lparr>decision = Block,
                reason = Some ''1 delivered utterance(s) require voice response. Please use the speak tool to respond before proceeding.''\<rparr>,
              bothGates)"
  by (simp add: handleHookRequest_def pendingGate_def deliveredGate_def state_eval
      toString10.simps digitTable_def)

text \<open>
  C5. Voice input active, auto-delivery enabled, auto-delivery before tools disabled, and
  gate 2 not applying: a tool invocation is approved, and nothing but the last-tool-use
  timestamp changes, so a pending utterance stays pending.
\<close>

theorem tool_skips_pending_gate:
  assumes "voiceInputActive (voicePreferences st)" "AUTO_DELIVER_VOICE_INPUT cfg"
    "\<not> AUTO_DELIVER_VOICE_INPUT_BEFORE_TOOLS cfg" "deliveredGate Tool st = None"
  shows "handleHookRequest cfg now polls Tool st =
           Some (\<lparr>decision = Approve, reason = None\<rparr>, st\<lparr>lastToolUseTimestamp := Some now\<rparr>)"
  using assms by (simp add: handleHookRequest_def pendingGate_def)

theorem tool_skips_pending_gate_witness:
  "map (\<lambda>u. (utext u, status u)) (queue scenarioA) = [(''hello'', Pending)]
   \<and> (\<exists>st'. handleHookRequest defaultConfig 20 [] Tool scenarioA =
              Some (\<lparr>decision = Approve, reason = None\<rparr>, st')
            \<and> map (\<lambda>u. (utext u, status u)) (queue st') = [(''hello'', Pending)])"
proof -
  have a: "voiceInputActive (voicePreferences scenarioA)" by (simp add: state_eval)
  have b: "AUTO_DELIVER_VOICE_INPUT defaultConfig" by (simp add: state_eval)
  have c: "\<not> AUTO_DELIVER_VOICE_INPUT_BEFORE_TOOLS defaultConfig" by (simp add: state_eval)
  have d: "deliveredGate Tool scenarioA = None" by (simp add: deliveredGate_def state_eval)
  have e: "map (\<lambda>u. (utext u, status u)) (queue scenarioA) = [(''hello'', Pending)]"
    by (simp add: state_eval)
  from tool_skips_pending_gate [OF a b c d, of 20 "[]"] e show ?thesis by auto
qed

section \<open>Properties of the speak request\<close>

text \<open>
  C7. A speak request answers with status 400 and leaves the state as it was whenever voice
  responses are disabled or the text is missing or empty after trimming. Otherwise it
  answers 200, every delivered utterance of the legacy global queue is responded and the
  other ones keep their status, the registry with all per-session queues is untouched, and
  the current time is recorded as last-speak.
\<close>

theorem speak_request:
  "(if \<not> voiceResponsesEnabled (voicePreferences st)
       \<or> (case text of None \<Rightarrow> True | Some t \<Rightarrow> trim t = [])
    then 400 \<le> sp_status (fst (speakEndpoint text now st))
         \<and> sp_status (fst (speakEndpoint text now st)) < 500
         \<and> sp_error (fst (speakEndpoint text now st)) \<noteq> None
         \<and> snd (speakEndpoint text now st) = st
    else sp_status (fst (speakEndpoint text now st)) = 200
         \<and> map (\<lambda>u. (uid u, utext u, timestamp u)) (queue (snd (speakEndpoint text now st))) =
             map (\<lambda>u. (uid u, utext u, timestamp u)) (queue st)
         \<and> map status (queue (snd (speakEndpoint text now st))) =
             map (\<lambda>u. if status u = Delivered then Responded else status u) (queue st)
         \<and> sessionManager (snd (speakEndpoint text now st)) = sessionManager st
         \<and> lastSpeakTimestamp (snd (speakEndpoint text now st)) = Some now)"
proof -
  have blank: "trim [] = []" by (simp add: trim_def)
  show ?thesis
    by (cases "text") (auto simp: speakEndpoint_def truthy_def blank comp_def intro!: map_cong)
qed

theorem speak_request_witness:
  "map status (queue speakState) = [Delivered, Pending]
   \<and> map status (queue (snd (speakEndpoint (Some ''done'') 30 speakState))) = [Responded, Pending]
   \<and> map (\<lambda>s. map status (utteranceQueue s))
          (sessions (sessionManager (snd (speakEndpoint (Some ''done'') 30 speakState)))) = [[Delivered]]
   \<and> lastSpeakTimestamp (snd (speakEndpoint (Some ''done'') 30 speakState)) = Some 30
   \<and> sp_status (fst (speakEndpoint (Some ''  '') 30 speakState)) = 400
   \<and> snd (speakEndpoint (Some ''  '') 30 speakState) = speakState
   \<and> sp_status (fst (speakEndpoint (Some ''done'') 30 sessionPending)) = 400
   \<and> snd (speakEndpoint (Some ''done'') 30 sessionPending) = sessionPending"
proof -
  have t1: "trim ''done'' = ''done''" by (simp add: trim_def isWhiteSpace_def)
  have t2: "trim ''  '' = []" by (simp add: trim_def isWhiteSpace_def)
  have v: "voiceResponsesEnabled (voicePreferences speakState)"
    by (simp add: speakState_def state_eval)
  have n: "\<not> voiceResponsesEnabled (voicePreferences sessionPending)"
    by (simp add: state_eval)
  have q: "map status (queue speakState) = [Delivered, Pending]"
    by (simp add: speakState_def state_eval)
  have s: "map (\<lambda>s. map status (utteranceQueue s)) (sessions (sessionManager speakState)) = [[Delivered]]"
    by (simp add: speakState_def state_eval)
  from speak_request [of speakState "Some ''done''" 30] v t1 q s
  have 1: "map status (queue (snd (speakEndpoint (Some ''done'') 30 speakState))) = [Responded, Pending]
     \<and> map (\<lambda>s. map status (utteranceQueue s))
          (sessions (sessionManager (snd (speakEndpoint (Some ''done'') 30 speakState)))) = [[Delivered]]
     \<and> lastSpeakTimestamp (snd (speakEndpoint (Some ''done'') 30 speakState)) = Some 30"
    by (simp add: speakState_def state_eval)
  have 2: "sp_status (fst (speakEndpoint (Some ''  '') 30 speakState)) = 400
     \<and> snd (speakEndpoint (Some ''  '') 30 speakState) = speakState"
    by (simp add: speakEndpoint_def t2 truthy_def)
  have 3: "sp_status (fst (speakEndpoint (Some ''done'') 30 sessionPending)) = 400
     \<and> snd (speakEndpoint (Some ''done'') 30 sessionPending) = sessionPending"
    using n by (simp add: speakEndpoint_def t1 truthy_def)
  from q 1 2 3 show ?thesis by blast
qed

section \<open>Properties of the dequeue operation\<close>

lemma markDelivered_markSet:
  "distinct (map uid q) \<Longrightarrow> markDelivered i q = markSet {i} q"
proof (induction q)
  case Nil
  then show ?case by (simp add: markSet_def)
next
  case (Cons u us)
  show ?case
  proof (cases "uid u = i")
    case True
    with Cons.prems have "\<forall>v \<in> set us. uid v \<noteq> i" by (auto simp: image_iff)
    then have "map (\<lambda>u. if uid u \<in> {i} then u\<lparr>status := Delivered\<rparr> else u) us = us"
      by (simp add: map_idI)
    with True show ?thesis by (simp add: markSet_def)
  next
    case False
    with Cons show ?thesis by (simp add: markSet_def)
  qed
qed

lemma inMemoryMarkDelivered_eq: "inMemoryMarkDelivered i q = markDelivered i q"
  by (induction q) auto

lemma markSet_empty: "markSet {} q = q"
  by (simp add: markSet_def)

lemma markSet_markSet: "markSet T (markSet S q) = markSet (S \<union> T) q"
  by (auto simp: markSet_def)

lemma map_uid_markSet: "map uid (markSet S q) = map uid q"
  by (induction q) (auto simp: markSet_def)

lemma applyMarks_applyMarks:
  "applyMarks S2 G2 (applyMarks S1 G1 st) = applyMarks (\<lambda>k. S1 k \<union> S2 k) (G1 \<union> G2) st"
  by (simp add: applyMarks_def markSet_markSet comp_def)

lemma applyMarks_wf:
  "queuesWellFormed st \<Longrightarrow> queuesWellFormed (applyMarks S G st)"
  by (simp add: queuesWellFormed_def applyMarks_def map_uid_markSet comp_def list_all_iff)

lemma applyMarks_none: "applyMarks (\<lambda>k. {}) {} st = st"
  by (simp add: applyMarks_def markSet_empty)


lemma session_self_update: "(s::SessionInfo)\<lparr>utteranceQueue := utteranceQueue s\<rparr> = s"
  by simp

lemma deliverEntry_applyMarks:
  assumes "queuesWellFormed st"
  shows "deliverEntry st e = applyMarks (sessionMarks e) (globalMarks e) st"
proof -
  obtain u src sessionId where e: "e = (u, src, sessionId)" by (cases e) auto
  let ?m = "sessionManager st"
  have same: "applyMarks (\<lambda>x. {}) {} st = st" by (rule applyMarks_none)
  show ?thesis
  proof (cases src)
    case Global
    from assms have "distinct (map uid (queue st))" by (simp add: queuesWellFormed_def)
    then have "markDelivered (uid u) (queue st) = markSet {uid u} (queue st)"
      by (rule markDelivered_markSet)
    with e Global show ?thesis
      by (simp add: applyMarks_def markSet_empty)
  next
    case Session
    show ?thesis
    proof (cases sessionId)
      case None
      with e Session same show ?thesis by (simp add: applyMarks_def markSet_empty)
    next
      case (Some k)
      show ?thesis
      proof (cases "k = []")
        case True
        with e Session Some same show ?thesis by (simp add: applyMarks_def markSet_empty)
      next
        case False
        have sess: "map (\<lambda>s. if sid s = k
                              then s\<lparr>utteranceQueue := inMemoryMarkDelivered (uid u) (utteranceQueue s)\<rparr>
                              else s) (sessions ?m)
                  = map (\<lambda>s. s\<lparr>utteranceQueue :=
                                  markSet (if sid s = k then {uid u} else {}) (utteranceQueue s)\<rparr>)
                        (sessions ?m)"
        proof (rule map_cong [OF refl])
          fix s assume "s \<in> set (sessions ?m)"
          with assms have "distinct (map uid (utteranceQueue s))"
            by (simp add: queuesWellFormed_def list_all_iff)
          then have "inMemoryMarkDelivered (uid u) (utteranceQueue s) = markSet {uid u} (utteranceQueue s)"
            by (simp add: inMemoryMarkDelivered_eq markDelivered_markSet)
          then show "(if sid s = k
                      then s\<lparr>utteranceQueue := inMemoryMarkDelivered (uid u) (utteranceQueue s)\<rparr>
                      else s)
                   = s\<lparr>utteranceQueue := markSet (if sid s = k then {uid u} else {}) (utteranceQueue s)\<rparr>"
            by (simp add: markSet_empty)
        qed
        show ?thesis
        proof (cases "getSession ?m k")
          case None
          then have "\<forall>s \<in> set (sessions ?m). sid s \<noteq> k"
            by (auto simp: getSession_def find_sid_None)
          then have "map (\<lambda>s. s\<lparr>utteranceQueue :=
                                  markSet (if sid s = k then {uid u} else {}) (utteranceQueue s)\<rparr>)
                        (sessions ?m) = sessions ?m"
            by (simp add: map_idI markSet_empty)
          with e Session Some False None show ?thesis
            by (simp add: applyMarks_def markSet_empty)
        next
          case (Some found)
          with e Session \<open>sessionId = Some k\<close> False sess show ?thesis
            by (simp add: applyMarks_def markSet_empty updateSessionQueue_def)
        qed
      qed
    qed
  qed
qed

lemma foldl_deliverEntry:
  "queuesWellFormed st \<Longrightarrow>
   foldl deliverEntry st es =
     applyMarks (\<lambda>k. \<Union>e \<in> set es. sessionMarks e k) (\<Union>e \<in> set es. globalMarks e) st"
proof (induction es arbitrary: st)
  case Nil
  then show ?case by (simp add: applyMarks_none)
next
  case (Cons e es)
  have wf1: "queuesWellFormed (applyMarks (sessionMarks e) (globalMarks e) st)"
    using Cons.prems by (rule applyMarks_wf)
  have "foldl deliverEntry st (e # es) =
          foldl deliverEntry (applyMarks (sessionMarks e) (globalMarks e) st) es"
    by (simp add: deliverEntry_applyMarks [OF Cons.prems])
  also have "\<dots> = applyMarks (\<lambda>k. \<Union>e \<in> set es. sessionMarks e k) (\<Union>e \<in> set es. globalMarks e)
                      (applyMarks (sessionMarks e) (globalMarks e) st)"
    by (rule Cons.IH [OF wf1])
  also have "\<dots> = applyMarks (\<lambda>k. \<Union>e \<in> set (e # es). sessionMarks e k)
                      (\<Union>e \<in> set (e # es). globalMarks e) st"
    by (simp add: applyMarks_applyMarks)
  finally show ?case .
qed


lemma sid_inj:
  "distinct (map sid xs) \<Longrightarrow> s \<in> set xs \<Longrightarrow> t \<in> set xs \<Longrightarrow> sid s = sid t \<Longrightarrow> s = t"
  by (meson distinct_map inj_onD)

lemma uid_inj:
  "distinct (map uid q) \<Longrightarrow> u \<in> set q \<Longrightarrow> v \<in> set q \<Longrightarrow> uid u = uid v \<Longrightarrow> u = v"
  by (meson distinct_map inj_onD)

lemma getActiveSession_Some:
  "getActiveSession m = Some a \<Longrightarrow> a \<in> set (sessions m)"
  by (auto simp: getActiveSession_def getSession_def split: if_splits option.splits
      dest: find_sid_Some)

lemma set_otherSessions:
  assumes "distinct (map sid (sessions m))"
  shows "(case getActiveSession m of None \<Rightarrow> {} | Some a \<Rightarrow> {a}) \<union> set (otherSessions m)
         = set (sessions m)"
proof (cases "getActiveSession m")
  case None
  then show ?thesis by (simp add: otherSessions_def getAllSessions_def)
next
  case (Some a)
  from getActiveSession_Some [OF Some] have a: "a \<in> set (sessions m)" .
  have "\<And>s. s \<in> set (sessions m) \<Longrightarrow> sid s = sid a \<Longrightarrow> s = a"
    using sid_inj [OF assms _ a] by blast
  with a Some show ?thesis
    by (auto simp: otherSessions_def getAllSessions_def)
qed

lemma set_collectPending:
  assumes "distinct (map sid (sessions (sessionManager st)))"
  shows "set (collectPending st) =
           (\<Union>s \<in> set (sessions (sessionManager st)).
               (\<lambda>u. (u, Session, Some (sid s))) ` set (pendingOf (utteranceQueue s)))
           \<union> (\<lambda>u. (u, Global, None)) ` set (pendingOf (queue st))"
proof -
  let ?m = "sessionManager st"
  let ?g = "\<lambda>s. (\<lambda>u. (u, Session, Some (sid s))) ` set (pendingOf (utteranceQueue s))"
  have "set (collectPending st) =
          (\<Union>s \<in> (case getActiveSession ?m of None \<Rightarrow> {} | Some a \<Rightarrow> {a}) \<union> set (otherSessions ?m). ?g s)
          \<union> (\<lambda>u. (u, Global, None)) ` set (pendingOf (queue st))"
    by (cases "getActiveSession ?m") (auto simp: collectPending_def)
  then show ?thesis by (simp only: set_otherSessions [OF assms])
qed

lemma collectPending_cases:
  assumes "distinct (map sid (sessions (sessionManager st)))" "e \<in> set (collectPending st)"
  obtains (session) t u where "t \<in> set (sessions (sessionManager st))"
      "u \<in> set (pendingOf (utteranceQueue t))" "e = (u, Session, Some (sid t))"
    | (global) u where "u \<in> set (pendingOf (queue st))" "e = (u, Global, None)"
  using assms(2) unfolding set_collectPending [OF assms(1)] by blast

lemma sessionMarks_collectPending:
  assumes "queuesWellFormed st" "s \<in> set (sessions (sessionManager st))"
  shows "(\<Union>e \<in> set (collectPending st). sessionMarks e (sid s))
         = uid ` set (pendingOf (utteranceQueue s))"
proof (rule set_eqI, rule iffI)
  from assms have d: "distinct (map sid (sessions (sessionManager st)))"
    and ne: "sid s \<noteq> []"
    by (simp_all add: queuesWellFormed_def list_all_iff)
  fix i
  {
    assume "i \<in> (\<Union>e \<in> set (collectPending st). sessionMarks e (sid s))"
    then obtain e where e: "e \<in> set (collectPending st)" and i: "i \<in> sessionMarks e (sid s)"
      by blast
    from d e show "i \<in> uid ` set (pendingOf (utteranceQueue s))"
    proof (cases rule: collectPending_cases)
      case (session t u)
      with i have "sid s = sid t" and iu: "i = uid u" by (simp_all split: if_splits)
      with sid_inj [OF d assms(2) session(1)] have "s = t" by simp
      with session(2) iu show ?thesis by blast
    next
      case (global u)
      with i show ?thesis by simp
    qed
  }
  {
    assume "i \<in> uid ` set (pendingOf (utteranceQueue s))"
    then obtain u where u: "u \<in> set (pendingOf (utteranceQueue s))" and iu: "i = uid u"
      by blast
    from u assms(2) have "(u, Session, Some (sid s)) \<in> set (collectPending st)"
      unfolding set_collectPending [OF d] by blast
    moreover from iu ne have "i \<in> sessionMarks (u, Session, Some (sid s)) (sid s)" by simp
    ultimately show "i \<in> (\<Union>e \<in> set (collectPending st). sessionMarks e (sid s))"
      by blast
  }
qed

lemma globalMarks_collectPending:
  assumes "distinct (map sid (sessions (sessionManager st)))"
  shows "(\<Union>e \<in> set (collectPending st). globalMarks e) = uid ` set (pendingOf (queue st))"
proof (rule set_eqI, rule iffI)
  fix i
  {
    assume "i \<in> (\<Union>e \<in> set (collectPending st). globalMarks e)"
    then obtain e where e: "e \<in> set (collectPending st)" and i: "i \<in> globalMarks e"
      by blast
    from assms e show "i \<in> uid ` set (pendingOf (queue st))"
    proof (cases rule: collectPending_cases)
      case (session t u)
      with i show ?thesis by simp
    next
      case (global u)
      with i show ?thesis by simp
    qed
  }
  {
    assume "i \<in> uid ` set (pendingOf (queue st))"
    then obtain u where u: "u \<in> set (pendingOf (queue st))" and iu: "i = uid u"
      by blast
    from u have "(u, Global, None) \<in> set (collectPending st)"
      unfolding set_collectPending [OF assms] by blast
    moreover from iu have "i \<in> globalMarks (u, Global, None)" by simp
    ultimately show "i \<in> (\<Union>e \<in> set (collectPending st). globalMarks e)"
      by blast
  }
qed

lemma markSet_pending:
  assumes "distinct (map uid q)"
  shows "markSet (uid ` set (pendingOf q)) q = deliverPending q"
  unfolding markSet_def deliverPending_def
proof (rule map_cong [OF refl])
  fix u assume u: "u \<in> set q"
  have "uid u \<in> uid ` set (pendingOf q) \<longleftrightarrow> status u = Pending"
  proof
    assume "uid u \<in> uid ` set (pendingOf q)"
    then obtain v where v: "v \<in> set q" "status v = Pending" "uid v = uid u"
      by (auto simp: pendingOf_def)
    from uid_inj [OF assms v(1) u v(3)] v(2) show "status u = Pending" by simp
  next
    assume "status u = Pending"
    with u show "uid u \<in> uid ` set (pendingOf q)" by (simp add: pendingOf_def)
  qed
  then show "(if uid u \<in> uid ` set (pendingOf q) then u\<lparr>status := Delivered\<rparr> else u)
           = (if status u = Pending then u\<lparr>status := Delivered\<rparr> else u)"
    by simp
qed

lemma dequeue_marks_all:
  assumes "queuesWellFormed st"
  shows "foldl deliverEntry st (sort_key f (collectPending st)) = allDelivered st"
proof -
  let ?m = "sessionManager st"
  from assms have d: "distinct (map sid (sessions ?m))" and dq: "distinct (map uid (queue st))"
    by (simp_all add: queuesWellFormed_def)
  have sess: "map (\<lambda>s. s\<lparr>utteranceQueue :=
                          markSet (\<Union>e \<in> set (collectPending st). sessionMarks e (sid s))
                                  (utteranceQueue s)\<rparr>) (sessions ?m)
            = map (\<lambda>s. s\<lparr>utteranceQueue := deliverPending (utteranceQueue s)\<rparr>) (sessions ?m)"
  proof (rule map_cong [OF refl])
    fix s assume s: "s \<in> set (sessions ?m)"
    with assms have "distinct (map uid (utteranceQueue s))"
      by (simp add: queuesWellFormed_def list_all_iff)
    then show "s\<lparr>utteranceQueue :=
                   markSet (\<Union>e \<in> set (collectPending st). sessionMarks e (sid s)) (utteranceQueue s)\<rparr>
             = s\<lparr>utteranceQueue := deliverPending (utteranceQueue s)\<rparr>"
      by (simp add: sessionMarks_collectPending [OF assms s] markSet_pending)
  qed
  have "foldl deliverEntry st (sort_key f (collectPending st))
        = applyMarks (\<lambda>k. \<Union>e \<in> set (collectPending st). sessionMarks e k)
                     (\<Union>e \<in> set (collectPending st). globalMarks e) st"
    by (simp add: foldl_deliverEntry [OF assms])
  also have "\<dots> = allDelivered st"
    unfolding applyMarks_def allDelivered_def sess globalMarks_collectPending [OF d]
      markSet_pending [OF dq] ..
  finally show ?thesis .
qed


lemma filter_sid_singleton:
  "distinct (map sid xs) \<Longrightarrow> a \<in> set xs \<Longrightarrow> filter (\<lambda>s. sid s = sid a) xs = [a]"
proof (induction xs)
  case Nil
  then show ?case by simp
next
  case (Cons x xs)
  show ?case
  proof (cases "x = a")
    case True
    with Cons.prems have "\<forall>s \<in> set xs. sid s \<noteq> sid a" by (auto simp: image_iff)
    then have "filter (\<lambda>s. sid s = sid a) xs = []" by (simp add: filter_empty_conv)
    with True show ?thesis by simp
  next
    case False
    with Cons.prems have "a \<in> set xs" and "sid x \<noteq> sid a" by (auto simp: image_iff)
    with Cons show ?thesis by simp
  qed
qed

lemma mset_otherSessions:
  assumes "distinct (map sid (sessions m))"
  shows "(case getActiveSession m of None \<Rightarrow> {#} | Some a \<Rightarrow> {#a#}) + mset (otherSessions m)
         = mset (sessions m)"
proof (cases "getActiveSession m")
  case None
  then show ?thesis by (simp add: otherSessions_def getAllSessions_def)
next
  case (Some a)
  from getActiveSession_Some [OF Some] have a: "a \<in> set (sessions m)" .
  have "mset (filter (\<lambda>s. sid s = sid a) (sessions m)) + mset (filter (\<lambda>s. \<not> sid s = sid a) (sessions m))
        = mset (sessions m)"
    by (simp only: mset_filter multiset_partition [symmetric])
  then have "{#a#} + mset (filter (\<lambda>s. sid s \<noteq> sid a) (sessions m)) = mset (sessions m)"
    by (simp add: filter_sid_singleton [OF assms a])
  with Some show ?thesis
    by (simp add: otherSessions_def getAllSessions_def)
qed

lemma mset_concat_map:
  "mset (concat (map g xs)) = (\<Sum>s \<in># mset xs. mset (g s))"
  by (induction xs) auto

lemma mset_collectPending:
  assumes "distinct (map sid (sessions (sessionManager st)))"
  shows "mset (map fst (collectPending st)) = mset (pendingOf (allUtterances st))"
proof -
  let ?m = "sessionManager st"
  let ?g = "\<lambda>s. pendingOf (utteranceQueue s)"
  have "mset (map fst (collectPending st)) =
          (\<Sum>s \<in># (case getActiveSession ?m of None \<Rightarrow> {#} | Some a \<Rightarrow> {#a#}) + mset (otherSessions ?m).
              mset (?g s))
          + mset (pendingOf (queue st))"
    by (cases "getActiveSession ?m")
       (simp_all add: collectPending_def map_concat comp_def mset_concat_map)
  also have "\<dots> = (\<Sum>s \<in># mset (sessions ?m). mset (?g s)) + mset (pendingOf (queue st))"
    by (simp only: mset_otherSessions [OF assms])
  also have "\<dots> = mset (pendingOf (allUtterances st))"
    by (simp add: allUtterances_def pendingOf_def filter_concat comp_def mset_concat_map)
  finally show ?thesis .
qed

lemma pendingOf_deliverPending: "pendingOf (deliverPending q) = []"
  by (induction q) (auto simp: pendingOf_def deliverPending_def)

lemma no_pending_allDelivered: "pendingOf (allUtterances (allDelivered st)) = []"
proof -
  have "\<And>q. filter (\<lambda>u. status u = Pending) (deliverPending q) = []"
    using pendingOf_deliverPending by (simp add: pendingOf_def)
  then show ?thesis
    by (simp add: allUtterances_def allDelivered_def pendingOf_def filter_concat comp_def)
qed

lemma dequeue_order:
  "sorted_wrt (\<lambda>a b. snd b \<le> snd a)
     (map (\<lambda>e. (utext (fst e), timestamp (fst e)))
          (sort_key (\<lambda>e. - timestamp (fst e)) (es :: pending_entry list)))"
proof -
  have "sorted (map (\<lambda>e. - timestamp (fst e)) (sort_key (\<lambda>e. - timestamp (fst e)) es))"
    by (rule sorted_sort_key)
  then show ?thesis by (simp add: sorted_map sorted_wrt_map)
qed

lemma threeQueues_wf: "queuesWellFormed threeQueues"
  by (simp add: queuesWellFormed_def threeQueues_def state_eval sdB_def)

lemma threeQueues_result:
  "d_utterances (fst (dequeueUtterancesCore threeQueues)) = Some [(''third'', 30), (''second'', 20), (''first'', 10)]"
  by (simp add: dequeueUtterancesCore_def collectPending_def otherSessions_def getActiveSession_def
      getSession_def getAllSessions_def truthy_def threeQueues_def state_eval sdB_def Let_def)


text \<open>
  C3. The dequeue operation fails with an explicit error, and changes nothing, whenever
  voice input is not active (the endpoint answers 400). Otherwise, in a state whose queues
  are well formed, it succeeds; what it returns are the text and timestamp of exactly the
  pending utterances of all session queues and the global queue, newest first; every one
  of them is delivered in the queue that owns it and nothing else changes; and no queue
  holds a pending utterance afterwards.
\<close>

theorem dequeue_exhaustive:
  "if \<not> voiceInputActive (voicePreferences st)
   then dequeueUtterancesCore st =
          (\<lparr>d_success = False,
            d_error = Some ''Voice input is not active. Cannot dequeue utterances when voice input is disabled.'',
            d_utterances = None\<rparr>, st)
        \<and> fst (fst (dequeueEndpoint st)) = 400
   else (queuesWellFormed st \<longrightarrow>
          (\<exists>us. fst (dequeueUtterancesCore st) =
                   \<lparr>d_success = True, d_error = None, d_utterances = Some us\<rparr>
              \<and> mset us = mset (map (\<lambda>u. (utext u, timestamp u)) (pendingOf (allUtterances st)))
              \<and> sorted_wrt (\<lambda>a b. snd b \<le> snd a) us)
          \<and> snd (dequeueUtterancesCore st) = allDelivered st
          \<and> pendingOf (allUtterances (snd (dequeueUtterancesCore st))) = [])"
proof (cases "voiceInputActive (voicePreferences st)")
  case False
  then show ?thesis
    by (simp add: dequeueUtterancesCore_def dequeueEndpoint_def truthy_def)
next
  case True
  {
    assume wf: "queuesWellFormed st"
    then have d: "distinct (map sid (sessions (sessionManager st)))"
      by (simp add: queuesWellFormed_def)
    let ?sorted = "sort_key (\<lambda>e. - timestamp (fst e)) (collectPending st)"
    let ?us = "map (\<lambda>e. (utext (fst e), timestamp (fst e))) ?sorted"
    have r: "fst (dequeueUtterancesCore st) =
               \<lparr>d_success = True, d_error = None, d_utterances = Some ?us\<rparr>"
      using True by (simp add: dequeueUtterancesCore_def Let_def)
    have "mset ?us = image_mset (\<lambda>u. (utext u, timestamp u)) (mset (map fst (collectPending st)))"
      by (simp add: multiset.map_comp comp_def)
    also have "\<dots> = image_mset (\<lambda>u. (utext u, timestamp u)) (mset (pendingOf (allUtterances st)))"
      by (simp only: mset_collectPending [OF d])
    finally have m: "mset ?us = mset (map (\<lambda>u. (utext u, timestamp u)) (pendingOf (allUtterances st)))"
      by simp
    have s: "snd (dequeueUtterancesCore st) = allDelivered st"
      using True by (simp add: dequeueUtterancesCore_def Let_def dequeue_marks_all [OF wf])
    from r m s dequeue_order [of "collectPending st"] no_pending_allDelivered [of st]
    have "(\<exists>us. fst (dequeueUtterancesCore st) =
                   \<lparr>d_success = True, d_error = None, d_utterances = Some us\<rparr>
              \<and> mset us = mset (map (\<lambda>u. (utext u, timestamp u)) (pendingOf (allUtterances st)))
              \<and> sorted_wrt (\<lambda>a b. snd b \<le> snd a) us)
          \<and> snd (dequeueUtterancesCore st) = allDelivered st
          \<and> pendingOf (allUtterances (snd (dequeueUtterancesCore st))) = []"
      by auto
  }
  then have wf_case:
    "queuesWellFormed st \<longrightarrow>
          (\<exists>us. fst (dequeueUtterancesCore st) =
                   \<lparr>d_success = True, d_error = None, d_utterances = Some us\<rparr>
              \<and> mset us = mset (map (\<lambda>u. (utext u, timestamp u)) (pendingOf (allUtterances st)))
              \<and> sorted_wrt (\<lambda>a b. snd b \<le> snd a) us)
          \<and> snd (dequeueUtterancesCore st) = allDelivered st
          \<and> pendingOf (allUtterances (snd (dequeueUtterancesCore st))) = []"
    by (rule impI)
  from True have "\<not> \<not> voiceInputActive (voicePreferences st)" by simp
  then show ?thesis using wf_case by (simp only: if_not_P if_False)
qed


lemma generateSessionId_nonempty: "generateSessionId sd now \<noteq> []"
  by (simp add: generateSessionId_def orElse_def simpleHash_def split: option.splits)

theorem dequeue_exhaustive_witness:
  "voiceInputActive (voicePreferences threeQueues) \<and> queuesWellFormed threeQueues
   \<and> map status (allUtterances threeQueues) = [Pending, Pending, Delivered, Responded, Pending]
   \<and> d_utterances (fst (dequeueUtterancesCore threeQueues)) =
        Some [(''third'', 30), (''second'', 20), (''first'', 10)]
   \<and> snd (dequeueUtterancesCore threeQueues) = allDelivered threeQueues
   \<and> pendingOf (allUtterances (snd (dequeueUtterancesCore threeQueues))) = []
   \<and> map status (allUtterances (allDelivered threeQueues)) =
        [Delivered, Delivered, Delivered, Responded, Delivered]"
proof -
  have a: "voiceInputActive (voicePreferences threeQueues)"
    by (simp add: threeQueues_def state_eval)
  have b: "map status (allUtterances threeQueues) = [Pending, Pending, Delivered, Responded, Pending]"
    by (simp add: allUtterances_def threeQueues_def state_eval sdB_def)
  have c: "map status (allUtterances (allDelivered threeQueues)) =
             [Delivered, Delivered, Delivered, Responded, Delivered]"
    by (simp add: allUtterances_def allDelivered_def deliverPending_def threeQueues_def
        state_eval sdB_def)
  from a have na: "\<not> \<not> voiceInputActive (voicePreferences threeQueues)" by simp
  from dequeue_exhaustive [of threeQueues, unfolded if_not_P [OF na]] threeQueues_wf
  have "snd (dequeueUtterancesCore threeQueues) = allDelivered threeQueues
        \<and> pendingOf (allUtterances (snd (dequeueUtterancesCore threeQueues))) = []"
    by blast
  with a b c threeQueues_wf threeQueues_result show ?thesis by blast
qed

section \<open>Properties of the blocking wait\<close>


lemma quietUntil_length: "quietUntil startTime polls k st \<Longrightarrow> k \<le> length polls"
  by (induction startTime polls k st rule: quietUntil.induct) auto


lemma waitLoop_returns:
  "list_ex (\<lambda>p. \<not> fst p - startTime < WAIT_TIMEOUT_SECONDS * 1000) polls \<Longrightarrow>
   waitLoop startTime polls st \<noteq> None"
  by (induction startTime polls st rule: waitLoop.induct) (auto simp: Let_def)









section \<open>Well-formed queues in reachable states\<close>

text \<open>
  The registry part of \<open>queuesWellFormed\<close> holds after every history of registry calls,
  and a queue keeps its identifiers distinct when \<open>add\<close> is given a fresh one;
  \<open>markDelivered\<close> changes no identifier.
\<close>

lemma registerSession_keys:
  "keysNonEmpty m \<Longrightarrow> keysNonEmpty (snd (registerSession sd now m))"
  by (auto simp: keysNonEmpty_def registerSession_def Let_def newSession_def refreshSession_def
      generateSessionId_nonempty list_all_iff split: option.splits)

lemma markSessionInactive_keys:
  "keysNonEmpty m \<Longrightarrow> keysNonEmpty (markSessionInactive k now m)"
  by (auto simp: keysNonEmpty_def markSessionInactive_def Let_def list_all_iff split: option.splits)

lemma removeSession_keys:
  "keysNonEmpty m \<Longrightarrow> keysNonEmpty (removeSession k m)"
  by (auto simp: keysNonEmpty_def removeSession_def Let_def list_all_iff split: option.splits)

lemma applyCall_keys: "keysNonEmpty m \<Longrightarrow> keysNonEmpty (applyCall m c)"
  by (cases c) (simp_all add: registerSession_keys markSessionInactive_keys removeSession_keys)

lemma foldl_applyCall_keys: "keysNonEmpty m \<Longrightarrow> keysNonEmpty (foldl applyCall m cs)"
  by (induction cs arbitrary: m) (simp_all add: applyCall_keys)

lemma registry_keys_wellformed:
  "distinct (map sid (sessions (runCalls calls))) \<and> keysNonEmpty (runCalls calls)"
proof -
  have "keysNonEmpty emptyManager" by (simp add: keysNonEmpty_def emptyManager_def)
  then have "keysNonEmpty (runCalls calls)"
    unfolding runCalls_def by (rule foldl_applyCall_keys)
  moreover have "distinct (map sid (sessions (runCalls calls)))"
    using foldl_applyCall_inv [OF emptyManager_inv, of calls]
    by (simp add: runCalls_def registryInv_def)
  ultimately show ?thesis by simp
qed

lemma add_fresh_id:
  "distinct (map uid q) \<Longrightarrow> newId \<notin> uid ` set q \<Longrightarrow>
   distinct (map uid (snd (add newId txt ts now q)))"
  by (simp add: add_def Let_def)

lemma map_uid_markDelivered: "map uid (markDelivered i q) = map uid q"
  by (induction q) auto

end
